theory Spec2Isabelle
  imports Complex_Main
begin


section \<open>Frontal grids: the data model of \<open>front_utils.py\<close>\<close>

text \<open>
  A numpy 2-D array is a list of rows. All arrays of the module are rectangular; the
  predicate \<open>is_matrix\<close> says so. Index arrays (the results of \<open>numpy.where\<close>, the
  columns of the frontal-grid dictionary) are lists of integers, since numpy accepts
  negative indices and counts them from the end.
\<close>

type_synonym 'a matrix = "'a list list"

datatype error = IndexError | ValueError | TypeError | ZeroDivisionError | FloatingPointError

definition NO_FRONT_INTEGER_ID :: int where "NO_FRONT_INTEGER_ID = 0"
definition WARM_FRONT_INTEGER_ID :: int where "WARM_FRONT_INTEGER_ID = 1"
definition COLD_FRONT_INTEGER_ID :: int where "COLD_FRONT_INTEGER_ID = 2"
definition ANY_FRONT_INTEGER_ID :: int where "ANY_FRONT_INTEGER_ID = 1"

definition WARM_FRONT_STRING_ID :: string where "WARM_FRONT_STRING_ID = ''warm''"
definition COLD_FRONT_STRING_ID :: string where "COLD_FRONT_STRING_ID = ''cold''"

definition is_matrix :: "nat \<Rightarrow> nat \<Rightarrow> 'a matrix \<Rightarrow> bool" where
  "is_matrix R C m \<longleftrightarrow> length m = R \<and> list_all (\<lambda>row. length row = C) m"

definition num_rows :: "'a matrix \<Rightarrow> nat" where
  "num_rows m = length m"

definition num_columns :: "'a matrix \<Rightarrow> nat" where
  \<comment> \<open>\<open>m.shape[1]\<close>; a matrix without rows is written \<open>[]\<close> and has no columns here.\<close>
  "num_columns m = (case m of [] \<Rightarrow> 0 | row # _ \<Rightarrow> length row)"

definition full :: "nat \<Rightarrow> nat \<Rightarrow> 'a \<Rightarrow> 'a matrix" where
  \<comment> \<open>\<open>numpy.full((R, C), v)\<close>\<close>
  "full R C v = replicate R (replicate C v)"

definition tabulate :: "nat \<Rightarrow> nat \<Rightarrow> (nat \<Rightarrow> nat \<Rightarrow> 'a) \<Rightarrow> 'a matrix" where
  \<comment> \<open>the array of a given shape whose cell \<open>(i, j)\<close> holds \<open>f i j\<close>\<close>
  "tabulate R C f = map (\<lambda>i. map (\<lambda>j. f i j) [0..<C]) [0..<R]"

definition set_cell :: "'a matrix \<Rightarrow> nat \<Rightarrow> nat \<Rightarrow> 'a \<Rightarrow> 'a matrix" where
  \<comment> \<open>\<open>m[i, j] = v\<close> for an index pair already known to be in range\<close>
  "set_cell m i j v = m[i := (m ! i)[j := v]]"

definition where_cells :: "('a \<Rightarrow> bool) \<Rightarrow> 'a matrix \<Rightarrow> (nat \<times> nat) list" where
  \<comment> \<open>the cells that \<open>numpy.where\<close> finds, in its row-major order\<close>
  "where_cells P m =
     concat (map (\<lambda>i. map (\<lambda>j. (i, j)) (filter (\<lambda>j. P (m ! i ! j)) [0..<length (m ! i)]))
                 [0..<length m])"

definition numpy_where :: "('a \<Rightarrow> bool) \<Rightarrow> 'a matrix \<Rightarrow> int list \<times> int list" where
  \<comment> \<open>\<open>numpy.where(condition)\<close> on a 2-D array: the row indices and the column indices\<close>
  "numpy_where P m =
     (map (\<lambda>p. int (fst p)) (where_cells P m), map (\<lambda>p. int (snd p)) (where_cells P m))"

definition wrap_index :: "nat \<Rightarrow> int \<Rightarrow> nat option" where
  \<comment> \<open>an index into an axis of length \<open>n\<close>: \<open>-n \<le> i < n\<close>, negative ones count from the end\<close>
  "wrap_index n i =
     (if 0 \<le> i \<and> i < int n then Some (nat i)
      else if - int n \<le> i \<and> i < 0 then Some (nat (i + int n))
      else None)"

definition broadcast_indices :: "int list \<Rightarrow> int list \<Rightarrow> error + (int \<times> int) list" where
  \<comment> \<open>the index pairs of \<open>m[rows, columns]\<close>: equal lengths pair up, a single index is
      repeated, any other two lengths cannot be broadcast together\<close>
  "broadcast_indices rows columns =
     (if length rows = length columns then Inr (zip rows columns)
      else if length rows = 1 then Inr (map (\<lambda>c. (hd rows, c)) columns)
      else if length columns = 1 then Inr (map (\<lambda>r. (r, hd columns)) rows)
      else Inl IndexError)"

fun assign_cells :: "'a matrix \<Rightarrow> (int \<times> int) list \<Rightarrow> 'a \<Rightarrow> error + 'a matrix" where
  "assign_cells m [] v = Inr m"
| "assign_cells m ((r, c) # ps) v =
     (case (wrap_index (num_rows m) r, wrap_index (num_columns m) c) of
        (Some i, Some j) \<Rightarrow> assign_cells (set_cell m i j v) ps v
      | _ \<Rightarrow> Inl IndexError)"

definition assign_points :: "'a matrix \<Rightarrow> int list \<Rightarrow> int list \<Rightarrow> 'a \<Rightarrow> error + 'a matrix" where
  \<comment> \<open>\<open>m[rows, columns] = v\<close> with two index arrays\<close>
  "assign_points m rows columns v =
     (case broadcast_indices rows columns of
        Inl e \<Rightarrow> Inl e
      | Inr ps \<Rightarrow> assign_cells m ps v)"

record frontal_grid_dict =
  warm_front_row_indices :: "int list"
  warm_front_column_indices :: "int list"
  cold_front_row_indices :: "int list"
  cold_front_column_indices :: "int list"

definition frontal_grid_to_points :: "int matrix \<Rightarrow> error + frontal_grid_dict" where
  \<comment> \<open>the two \<open>error_checking\<close> range assertions, then one \<open>numpy.where\<close> per front type\<close>
  "frontal_grid_to_points frontal_grid_matrix =
     (if \<not> list_all (list_all (\<lambda>x. NO_FRONT_INTEGER_ID \<le> x)) frontal_grid_matrix then Inl ValueError
      else if \<not> list_all (list_all (\<lambda>x. x \<le> COLD_FRONT_INTEGER_ID)) frontal_grid_matrix then Inl ValueError
      else
        (let (warm_rows, warm_columns) =
               numpy_where (\<lambda>x. x = WARM_FRONT_INTEGER_ID) frontal_grid_matrix;
             (cold_rows, cold_columns) =
               numpy_where (\<lambda>x. x = COLD_FRONT_INTEGER_ID) frontal_grid_matrix
         in Inr \<lparr>warm_front_row_indices = warm_rows,
                 warm_front_column_indices = warm_columns,
                 cold_front_row_indices = cold_rows,
                 cold_front_column_indices = cold_columns\<rparr>))"

definition frontal_points_to_grid :: "frontal_grid_dict \<Rightarrow> nat \<Rightarrow> nat \<Rightarrow> error + int matrix" where
  \<comment> \<open>warm-front cells are written first, cold-front cells second\<close>
  "frontal_points_to_grid frontal_grid_dict num_grid_rows num_grid_columns =
     (case assign_points (full num_grid_rows num_grid_columns NO_FRONT_INTEGER_ID)
             (warm_front_row_indices frontal_grid_dict)
             (warm_front_column_indices frontal_grid_dict) WARM_FRONT_INTEGER_ID of
        Inl e \<Rightarrow> Inl e
      | Inr frontal_grid_matrix \<Rightarrow>
          assign_points frontal_grid_matrix
            (cold_front_row_indices frontal_grid_dict)
            (cold_front_column_indices frontal_grid_dict) COLD_FRONT_INTEGER_ID)"

definition in_grid :: "nat \<Rightarrow> nat \<Rightarrow> int \<times> int \<Rightarrow> bool" where
  \<comment> \<open>a (row, column) pair with both indices in range for an \<open>R\<close>-by-\<open>C\<close> grid\<close>
  "in_grid R C p \<longleftrightarrow> 0 \<le> fst p \<and> fst p < int R \<and> 0 \<le> snd p \<and> snd p < int C"

section \<open>Dilation of binary and ternary images\<close>

text \<open>
  The grid spacing of the NARR grid comes from \<open>nwp_model_utils.get_xy_grid_spacing\<close>,
  a module outside the repository; the functions that read it take it as their first
  argument. Distances are real numbers. \<open>cv2.dilate\<close> is the documented operation of
  OpenCV: the output cell is the maximum of the source over the nonzero cells of the
  kernel, the kernel being anchored at its centre \<open>(rows div 2, columns div 2)\<close>, and
  source cells outside the image do not take part.
\<close>

definition all_cells :: "('a \<Rightarrow> bool) \<Rightarrow> 'a matrix \<Rightarrow> bool" where
  \<comment> \<open>the assertions of \<open>error_checking\<close> that every element of an array passes a test\<close>
  "all_cells P m = list_all (list_all P) m"

definition matrix_sum :: "int matrix \<Rightarrow> int" where
  "matrix_sum m = sum_list (map sum_list m)"

definition buffer_distance_to_narr_mask :: "real \<Rightarrow> real \<Rightarrow> error + bool matrix" where
  "buffer_distance_to_narr_mask grid_spacing_metres buffer_distance_metres =
     (if \<not> buffer_distance_metres > 0 then Inl ValueError
      else if grid_spacing_metres = 0 then Inl ZeroDivisionError
      else
        (let buffer_distance_metres = max buffer_distance_metres 1;
             max_row_or_column_offset = \<lfloor>buffer_distance_metres / grid_spacing_metres\<rfloor>
         in if max_row_or_column_offset < 0 then Inl ValueError
            else
              (let row_or_column_offsets = [- max_row_or_column_offset..max_row_or_column_offset]
               in Inr (map (\<lambda>row_offset. map (\<lambda>column_offset.
                         grid_spacing_metres *
                           sqrt ((real_of_int row_offset)\<^sup>2 + (real_of_int column_offset)\<^sup>2)
                         \<le> buffer_distance_metres) row_or_column_offsets)
                       row_or_column_offsets))))"

definition astype_int :: "bool matrix \<Rightarrow> int matrix" where
  "astype_int m = map (map (\<lambda>b. if b then 1 else 0)) m"

definition kernel_cells :: "int matrix \<Rightarrow> (int \<times> int) list" where
  \<comment> \<open>the offsets, from the anchor, of the nonzero cells of a kernel\<close>
  "kernel_cells kernel_matrix =
     map (\<lambda>p. (int (fst p) - int (num_rows kernel_matrix div 2),
               int (snd p) - int (num_columns kernel_matrix div 2)))
       (where_cells (\<lambda>x. x \<noteq> 0) kernel_matrix)"

definition covered_values :: "int matrix \<Rightarrow> (int \<times> int) list \<Rightarrow> nat \<Rightarrow> nat \<Rightarrow> int list" where
  \<comment> \<open>the source values under the kernel placed at cell \<open>(i, j)\<close>, inside the image\<close>
  "covered_values src offsets i j =
     map (\<lambda>p. src ! nat (int i + fst p) ! nat (int j + snd p))
       (filter (\<lambda>p. 0 \<le> int i + fst p \<and> int i + fst p < int (num_rows src) \<and>
                    0 \<le> int j + snd p \<and> int j + snd p < int (num_columns src)) offsets)"

definition cv2_dilate :: "int matrix \<Rightarrow> int matrix \<Rightarrow> int matrix" where
  "cv2_dilate src kernel_matrix =
     map (\<lambda>i. map (\<lambda>j. fold max (covered_values src (kernel_cells kernel_matrix) i j) 0)
                  [0..<num_columns src])
         [0..<num_rows src]"

definition dilate_binary_narr_image ::
    "real \<Rightarrow> int matrix \<Rightarrow> real option \<Rightarrow> int matrix option \<Rightarrow> error + int matrix" where
  "dilate_binary_narr_image grid_spacing_metres binary_matrix dilation_distance_metres
       dilation_kernel_matrix =
     (if \<not> all_cells (\<lambda>x. 0 \<le> x) binary_matrix then Inl ValueError
      else if \<not> all_cells (\<lambda>x. x \<le> 1) binary_matrix then Inl ValueError
      else
        (case (case dilation_kernel_matrix of
                 Some kernel_matrix \<Rightarrow> Inr kernel_matrix
               | None \<Rightarrow>
                   (case dilation_distance_metres of
                      None \<Rightarrow> Inl TypeError
                    | Some distance \<Rightarrow>
                        (case buffer_distance_to_narr_mask grid_spacing_metres distance of
                           Inl e \<Rightarrow> Inl e
                         | Inr mask_matrix \<Rightarrow> Inr (astype_int mask_matrix)))) of
           Inl e \<Rightarrow> Inl e
         | Inr kernel_matrix \<Rightarrow>
             if \<not> all_cells (\<lambda>x. 0 \<le> x) kernel_matrix then Inl ValueError
             else if \<not> all_cells (\<lambda>x. x \<le> 1) kernel_matrix then Inl ValueError
             else if \<not> matrix_sum kernel_matrix \<ge> 1 then Inl ValueError
             else Inr (cv2_dilate binary_matrix kernel_matrix)))"

definition binary_front_matrix :: "int \<Rightarrow> int matrix \<Rightarrow> int matrix" where
  \<comment> \<open>a matrix of \<open>NO_FRONT_INTEGER_ID\<close> with \<open>ANY_FRONT_INTEGER_ID\<close> where the ternary
      matrix holds the given front type\<close>
  "binary_front_matrix front_integer_id ternary_matrix =
     map (map (\<lambda>x. if x = front_integer_id then ANY_FRONT_INTEGER_ID else NO_FRONT_INTEGER_ID))
       ternary_matrix"

definition numpy_min :: "'a::linorder list \<Rightarrow> error + 'a" where
  \<comment> \<open>\<open>numpy.min\<close> raises on an empty array\<close>
  "numpy_min xs = (case xs of [] \<Rightarrow> Inl ValueError | x # rest \<Rightarrow> Inr (fold min rest x))"

definition min_squared_distance :: "int \<Rightarrow> int \<Rightarrow> int list \<times> int list \<Rightarrow> error + int" where
  \<comment> \<open>the least squared index distance from cell \<open>(row, column)\<close> to the points of one
      front type\<close>
  "min_squared_distance row column front_indices =
     numpy_min (map (\<lambda>p. (row - fst p)\<^sup>2 + (column - snd p)\<^sup>2)
                  (zip (fst front_indices) (snd front_indices)))"

definition both_fronts_cells :: "int matrix \<Rightarrow> int matrix \<Rightarrow> (nat \<times> nat) list" where
  \<comment> \<open>the cells where both dilated matrices hold \<open>ANY_FRONT_INTEGER_ID\<close>, in row-major
      order\<close>
  "both_fronts_cells binary_cold_front_matrix binary_warm_front_matrix =
     where_cells (\<lambda>p. fst p = ANY_FRONT_INTEGER_ID \<and> snd p = ANY_FRONT_INTEGER_ID)
       (map2 zip binary_cold_front_matrix binary_warm_front_matrix)"

fun resolve_points ::
    "int list \<times> int list \<Rightarrow> int list \<times> int list \<Rightarrow> (nat \<times> nat) list \<Rightarrow>
     int matrix \<times> int matrix \<Rightarrow> error + int matrix \<times> int matrix" where
  "resolve_points cold_front_indices warm_front_indices [] matrices = Inr matrices"
| "resolve_points cold_front_indices warm_front_indices ((row, column) # points)
       (binary_cold_front_matrix, binary_warm_front_matrix) =
     (case min_squared_distance (int row) (int column) cold_front_indices of
        Inl e \<Rightarrow> Inl e
      | Inr this_min_cold_front_distance \<Rightarrow>
          (case min_squared_distance (int row) (int column) warm_front_indices of
             Inl e \<Rightarrow> Inl e
           | Inr this_min_warm_front_distance \<Rightarrow>
               if this_min_cold_front_distance \<le> this_min_warm_front_distance
               then resolve_points cold_front_indices warm_front_indices points
                      (binary_cold_front_matrix,
                       set_cell binary_warm_front_matrix row column NO_FRONT_INTEGER_ID)
               else resolve_points cold_front_indices warm_front_indices points
                      (set_cell binary_cold_front_matrix row column NO_FRONT_INTEGER_ID,
                       binary_warm_front_matrix)))"

definition assign_where :: "'a matrix \<Rightarrow> ('b \<Rightarrow> bool) \<Rightarrow> 'b matrix \<Rightarrow> 'a \<Rightarrow> 'a matrix" where
  \<comment> \<open>\<open>m[condition(other)] = v\<close>, a Boolean-mask assignment between arrays of one shape\<close>
  "assign_where m P other v =
     map2 (\<lambda>row other_row. map2 (\<lambda>x y. if P y then v else x) row other_row) m other"

definition dilate_ternary_narr_image ::
    "real \<Rightarrow> int matrix \<Rightarrow> real option \<Rightarrow> int matrix option \<Rightarrow> error + int matrix" where
  "dilate_ternary_narr_image grid_spacing_metres ternary_matrix dilation_distance_metres
       dilation_kernel_matrix =
     (if \<not> all_cells (\<lambda>x. 0 \<le> x) ternary_matrix then Inl ValueError
      else if \<not> all_cells (\<lambda>x. x \<le> 2) ternary_matrix then Inl ValueError
      else
        (case dilate_binary_narr_image grid_spacing_metres
                (binary_front_matrix COLD_FRONT_INTEGER_ID ternary_matrix)
                dilation_distance_metres dilation_kernel_matrix of
           Inl e \<Rightarrow> Inl e
         | Inr binary_cold_front_matrix \<Rightarrow>
        (case dilate_binary_narr_image grid_spacing_metres
                (binary_front_matrix WARM_FRONT_INTEGER_ID ternary_matrix)
                dilation_distance_metres dilation_kernel_matrix of
           Inl e \<Rightarrow> Inl e
         | Inr binary_warm_front_matrix \<Rightarrow>
        (case resolve_points
                (numpy_where (\<lambda>x. x = COLD_FRONT_INTEGER_ID) ternary_matrix)
                (numpy_where (\<lambda>x. x = WARM_FRONT_INTEGER_ID) ternary_matrix)
                (both_fronts_cells binary_cold_front_matrix binary_warm_front_matrix)
                (binary_cold_front_matrix, binary_warm_front_matrix) of
           Inl e \<Rightarrow> Inl e
         | Inr (binary_cold_front_matrix, binary_warm_front_matrix) \<Rightarrow>
             Inr (assign_where
                    (assign_where ternary_matrix (\<lambda>x. x = ANY_FRONT_INTEGER_ID)
                       binary_cold_front_matrix COLD_FRONT_INTEGER_ID)
                    (\<lambda>x. x = ANY_FRONT_INTEGER_ID) binary_warm_front_matrix
                    WARM_FRONT_INTEGER_ID)))))"

definition front_distance :: "int \<Rightarrow> int matrix \<Rightarrow> nat \<Rightarrow> nat \<Rightarrow> int" where
  \<comment> \<open>the least squared index distance from a cell to the cells holding one front type,
      as a set minimum; \<open>min_squared_distance\<close> computes it when such cells exist\<close>
  "front_distance t m i j =
     Min ((\<lambda>p. (int i - int (fst p))\<^sup>2 + (int j - int (snd p))\<^sup>2) `
          set (where_cells (\<lambda>x. x = t) m))"

definition covers_anchor :: "int matrix \<Rightarrow> bool" where
  \<comment> \<open>the kernel is nonzero at its anchor cell, so that a dilation keeps every source cell\<close>
  "covers_anchor kernel_matrix \<longleftrightarrow> (0, 0) \<in> set (kernel_cells kernel_matrix)"

section \<open>From polylines to grids\<close>

text \<open>
  The projection, the grid points, the grid dimensions and the grid spacing of the NARR
  grid come from \<open>nwp_model_utils\<close>, and the geometric tests from \<open>shapely\<close>; neither is
  part of the repository. They are the fields of two records that the functions below
  take as arguments. Coordinates are real numbers. A polygon and a line string are the
  lists of their vertices.
\<close>

type_synonym vertex = "real \<times> real"

record narr_grid =
  project_latlng_to_xy :: "real list \<Rightarrow> real list \<Rightarrow> real list \<times> real list"
  xy_grid_points :: "real list \<times> real list"
  grid_dimensions :: "nat \<times> nat"
  xy_grid_spacing :: real

record geometry =
  linestring_is_valid :: "vertex list \<Rightarrow> bool"
  intersects :: "vertex list \<Rightarrow> vertex list \<Rightarrow> bool"
  touches :: "vertex list \<Rightarrow> vertex list \<Rightarrow> bool"

definition TOLERANCE_DEG :: real where "TOLERANCE_DEG = 1 / 1000"

definition vertex_arrays_to_list :: "real list \<Rightarrow> real list \<Rightarrow> error + vertex list" where
  \<comment> \<open>\<open>_vertex_arrays_to_list\<close>; \<open>_check_polyline\<close> wants both arrays of one length\<close>
  "vertex_arrays_to_list vertex_x_coords_metres vertex_y_coords_metres =
     (if length vertex_y_coords_metres \<noteq> length vertex_x_coords_metres then Inl TypeError
      else Inr (zip vertex_x_coords_metres vertex_y_coords_metres))"

definition polyline_from_vertex_arrays_to_linestring ::
    "geometry \<Rightarrow> real list \<Rightarrow> real list \<Rightarrow> error + vertex list" where
  "polyline_from_vertex_arrays_to_linestring geom vertex_x_coords_metres vertex_y_coords_metres =
     (case vertex_arrays_to_list vertex_x_coords_metres vertex_y_coords_metres of
        Inl e \<Rightarrow> Inl e
      | Inr vertex_list_xy_metres \<Rightarrow>
          if \<not> linestring_is_valid geom vertex_list_xy_metres then Inl ValueError
          else Inr vertex_list_xy_metres)"

definition grid_cell_to_polygon :: "real \<Rightarrow> real \<Rightarrow> real \<Rightarrow> real \<Rightarrow> vertex list" where
  "grid_cell_to_polygon grid_point_x_metres grid_point_y_metres x_spacing_metres
       y_spacing_metres =
     (let x_min_metres = grid_point_x_metres - x_spacing_metres / 2;
          x_max_metres = grid_point_x_metres + x_spacing_metres / 2;
          y_min_metres = grid_point_y_metres - y_spacing_metres / 2;
          y_max_metres = grid_point_y_metres + y_spacing_metres / 2
      in [(x_min_metres, y_min_metres), (x_max_metres, y_min_metres),
          (x_max_metres, y_max_metres), (x_min_metres, y_max_metres),
          (x_min_metres, y_min_metres)])"

definition numpy_max :: "'a::linorder list \<Rightarrow> error + 'a" where
  \<comment> \<open>\<open>numpy.max\<close> raises on an empty array\<close>
  "numpy_max xs = (case xs of [] \<Rightarrow> Inl ValueError | x # rest \<Rightarrow> Inr (fold max rest x))"

definition in_range_indices :: "real list \<Rightarrow> real \<Rightarrow> real \<Rightarrow> nat list" where
  \<comment> \<open>\<open>numpy.where(numpy.logical_and(coords >= lo, coords <= hi))[0]\<close>\<close>
  "in_range_indices coords lo hi =
     filter (\<lambda>k. coords ! k \<ge> lo \<and> coords ! k \<le> hi) [0..<length coords]"

definition polyline_to_grid_points ::
    "geometry \<Rightarrow> real list \<Rightarrow> real list \<Rightarrow> real list \<Rightarrow> real list \<Rightarrow>
     error + int list \<times> int list" where
  \<comment> \<open>\<open>_polyline_to_grid_points\<close>\<close>
  "polyline_to_grid_points geom polyline_x_coords_metres polyline_y_coords_metres
       grid_point_x_coords_metres grid_point_y_coords_metres =
     (case polyline_from_vertex_arrays_to_linestring geom polyline_x_coords_metres
             polyline_y_coords_metres of
        Inl e \<Rightarrow> Inl e
      | Inr polyline_object_xy_metres \<Rightarrow>
     if length grid_point_x_coords_metres < 2 then Inl IndexError
     else if length grid_point_y_coords_metres < 2 then Inl IndexError
     else
       (let x_spacing_metres = grid_point_x_coords_metres ! 1 - grid_point_x_coords_metres ! 0;
            y_spacing_metres = grid_point_y_coords_metres ! 1 - grid_point_y_coords_metres ! 0
        in
     (case (numpy_min polyline_x_coords_metres, numpy_max polyline_x_coords_metres,
            numpy_min polyline_y_coords_metres, numpy_max polyline_y_coords_metres) of
        (Inr x_min, Inr x_max, Inr y_min, Inr y_max) \<Rightarrow>
          (let x_min_to_consider_metres = x_min - x_spacing_metres;
               x_max_to_consider_metres = x_max + x_spacing_metres;
               y_min_to_consider_metres = y_min - y_spacing_metres;
               y_max_to_consider_metres = y_max + y_spacing_metres;
               x_in_range_indices = in_range_indices grid_point_x_coords_metres
                 x_min_to_consider_metres x_max_to_consider_metres;
               y_in_range_indices = in_range_indices grid_point_y_coords_metres
                 y_min_to_consider_metres y_max_to_consider_metres
           in
          (case numpy_min y_in_range_indices of
             Inl e \<Rightarrow> Inl e
           | Inr row_offset \<Rightarrow>
          (case numpy_min x_in_range_indices of
             Inl e \<Rightarrow> Inl e
           | Inr column_offset \<Rightarrow>
               (let grid_points_x_to_consider_metres =
                      map (\<lambda>k. grid_point_x_coords_metres ! k) x_in_range_indices;
                    grid_points_y_to_consider_metres =
                      map (\<lambda>k. grid_point_y_coords_metres ! k) y_in_range_indices;
                    cells_in_polyline =
                      concat (map (\<lambda>i. map (\<lambda>j. (i, j))
                        (filter (\<lambda>j.
                           (let this_grid_cell_edge_polygon_xy_metres =
                                  grid_cell_to_polygon (grid_points_x_to_consider_metres ! j)
                                    (grid_points_y_to_consider_metres ! i)
                                    x_spacing_metres y_spacing_metres
                            in intersects geom this_grid_cell_edge_polygon_xy_metres
                                 polyline_object_xy_metres \<or>
                               touches geom this_grid_cell_edge_polygon_xy_metres
                                 polyline_object_xy_metres))
                           [0..<length grid_points_x_to_consider_metres]))
                        [0..<length grid_points_y_to_consider_metres])
                in Inr (map (\<lambda>p. int (fst p + row_offset)) cells_in_polyline,
                        map (\<lambda>p. int (snd p + column_offset)) cells_in_polyline)))))
      | _ \<Rightarrow> Inl ValueError)))"

definition grid_points_to_binary_image ::
    "int list \<Rightarrow> int list \<Rightarrow> nat \<Rightarrow> nat \<Rightarrow> error + bool matrix" where
  \<comment> \<open>\<open>_grid_points_to_binary_image\<close>. Its index arrays are the arrays that
      \<open>_polyline_to_grid_points\<close> builds with \<open>numpy.array\<close> from Python lists; of an empty
      list that is an array of floats, and numpy refuses to index with it.\<close>
  "grid_points_to_binary_image rows_in_object columns_in_object num_grid_rows num_grid_columns =
     (if rows_in_object = [] \<or> columns_in_object = [] then Inl IndexError
      else assign_points (full num_grid_rows num_grid_columns False)
             rows_in_object columns_in_object True)"

definition python_first :: "'a list \<Rightarrow> error + 'a" where
  \<comment> \<open>\<open>xs[0]\<close>\<close>
  "python_first xs = (case xs of [] \<Rightarrow> Inl IndexError | x # _ \<Rightarrow> Inr x)"

definition python_last :: "'a list \<Rightarrow> error + 'a" where
  \<comment> \<open>\<open>xs[-1]\<close>\<close>
  "python_last xs = (if xs = [] then Inl IndexError else Inr (last xs))"

definition is_polyline_closed :: "real list \<Rightarrow> real list \<Rightarrow> error + bool" where
  \<comment> \<open>\<open>_is_polyline_closed\<close>\<close>
  "is_polyline_closed vertex_latitudes_deg vertex_longitudes_deg =
     (case (python_first vertex_latitudes_deg, python_last vertex_latitudes_deg,
            python_first vertex_longitudes_deg, python_last vertex_longitudes_deg) of
        (Inr first_lat, Inr last_lat, Inr first_lng, Inr last_lng) \<Rightarrow>
          (let absolute_lat_diff_deg = \<bar>first_lat - last_lat\<bar>;
               absolute_lng_diff_deg = \<bar>first_lng - last_lng\<bar>
           in Inr (absolute_lat_diff_deg < TOLERANCE_DEG \<and>
                   absolute_lng_diff_deg < TOLERANCE_DEG))
      | _ \<Rightarrow> Inl IndexError)"

definition polyline_to_binary_narr_grid ::
    "narr_grid \<Rightarrow> geometry \<Rightarrow> real list \<Rightarrow> real list \<Rightarrow> real \<Rightarrow> error + int matrix" where
  "polyline_to_binary_narr_grid narr geom polyline_latitudes_deg polyline_longitudes_deg
       dilation_distance_metres =
     (if \<not> dilation_distance_metres \<ge> 0 then Inl ValueError
      else
        (let dilation_distance_metres = max dilation_distance_metres 1;
             (polyline_x_coords_metres, polyline_y_coords_metres) =
               project_latlng_to_xy narr polyline_latitudes_deg polyline_longitudes_deg;
             (grid_point_x_coords_metres, grid_point_y_coords_metres) = xy_grid_points narr
         in
        (case polyline_to_grid_points geom polyline_x_coords_metres polyline_y_coords_metres
                grid_point_x_coords_metres grid_point_y_coords_metres of
           Inl e \<Rightarrow> Inl e
         | Inr (rows_in_polyline, columns_in_polyline) \<Rightarrow>
             (let (num_grid_rows, num_grid_columns) = grid_dimensions narr
              in
             (case grid_points_to_binary_image rows_in_polyline columns_in_polyline
                     num_grid_rows num_grid_columns of
                Inl e \<Rightarrow> Inl e
              | Inr binary_matrix \<Rightarrow>
                  dilate_binary_narr_image (xy_grid_spacing narr) (astype_int binary_matrix)
                    (Some dilation_distance_metres) None)))))"

record front =
  unix_time_sec :: int
  front_type :: string
  latitudes_deg :: "real list"
  longitudes_deg :: "real list"

fun rasterize_fronts ::
    "narr_grid \<Rightarrow> geometry \<Rightarrow> front list \<Rightarrow> real \<Rightarrow> nat \<Rightarrow> nat list \<Rightarrow> int matrix \<Rightarrow>
     error + int matrix" where
  \<comment> \<open>the loop \<open>for j in these_front_indices\<close> of \<open>many_polylines_to_narr_grid\<close>, at the
      valid time of index \<open>i\<close>\<close>
  "rasterize_fronts narr geom front_table dilation_distance_metres i []
       this_frontal_grid_matrix = Inr this_frontal_grid_matrix"
| "rasterize_fronts narr geom front_table dilation_distance_metres i (j # front_indices)
       this_frontal_grid_matrix =
     (case is_polyline_closed (latitudes_deg (front_table ! j))
             (longitudes_deg (front_table ! j)) of
        Inl e \<Rightarrow> Inl e
      | Inr skip_this_front \<Rightarrow>
          if skip_this_front
          then rasterize_fronts narr geom front_table dilation_distance_metres i front_indices
                 this_frontal_grid_matrix
          else
            (case polyline_to_binary_narr_grid narr geom (latitudes_deg (front_table ! j))
                    (longitudes_deg (front_table ! j)) dilation_distance_metres of
               Inl e \<Rightarrow> Inl e
             | Inr this_binary_matrix \<Rightarrow>
                 rasterize_fronts narr geom front_table dilation_distance_metres i front_indices
                   (if front_type (front_table ! j) = WARM_FRONT_STRING_ID
                    then assign_where this_frontal_grid_matrix (\<lambda>x. x \<noteq> 0)
                           this_binary_matrix WARM_FRONT_INTEGER_ID
                    else if front_type (front_table ! i) = COLD_FRONT_STRING_ID
                    then assign_where this_frontal_grid_matrix (\<lambda>x. x \<noteq> 0)
                           this_binary_matrix COLD_FRONT_INTEGER_ID
                    else this_frontal_grid_matrix)))"

definition frontal_grid_at_time ::
    "narr_grid \<Rightarrow> geometry \<Rightarrow> front list \<Rightarrow> real \<Rightarrow> int list \<Rightarrow> nat \<Rightarrow>
     error + frontal_grid_dict" where
  \<comment> \<open>one pass of the loop \<open>for i in range(num_valid_times)\<close>\<close>
  "frontal_grid_at_time narr geom front_table dilation_distance_metres valid_times_unix_sec i =
     (let these_front_indices =
            filter (\<lambda>j. unix_time_sec (front_table ! j) = valid_times_unix_sec ! i)
              [0..<length front_table];
          (num_grid_rows, num_grid_columns) = grid_dimensions narr
      in case rasterize_fronts narr geom front_table dilation_distance_metres i
                these_front_indices (full num_grid_rows num_grid_columns NO_FRONT_INTEGER_ID) of
           Inl e \<Rightarrow> Inl e
         | Inr this_frontal_grid_matrix \<Rightarrow> frontal_grid_to_points this_frontal_grid_matrix)"

fun collect_results :: "(error + 'a) list \<Rightarrow> error + 'a list" where
  \<comment> \<open>the results of the passes of a loop, or the first error raised\<close>
  "collect_results [] = Inr []"
| "collect_results (Inl e # rest) = Inl e"
| "collect_results (Inr x # rest) =
     (case collect_results rest of Inl e \<Rightarrow> Inl e | Inr xs \<Rightarrow> Inr (x # xs))"

definition many_polylines_to_narr_grid ::
    "narr_grid \<Rightarrow> geometry \<Rightarrow> front list \<Rightarrow> real \<Rightarrow> error + (int \<times> frontal_grid_dict) list" where
  \<comment> \<open>the rows of the returned table: a valid time and its four index arrays\<close>
  "many_polylines_to_narr_grid narr geom front_table dilation_distance_metres =
     (let valid_times_unix_sec = sort (remdups (map unix_time_sec front_table))
      in case collect_results
                (map (frontal_grid_at_time narr geom front_table dilation_distance_metres
                        valid_times_unix_sec)
                   [0..<length valid_times_unix_sec]) of
           Inl e \<Rightarrow> Inl e
         | Inr dicts \<Rightarrow> Inr (zip valid_times_unix_sec dicts))"

subsection \<open>An example grid\<close>

text \<open>
  A 3-by-3 grid with the spacing of the NARR grid (32463 m) and a projection that takes
  longitude for \<open>x\<close> and latitude for \<open>y\<close>. The example geometry calls a line string valid
  when it has two vertices or more, and lets a cell meet a line string when a vertex of
  the line lies in the closed cell; on the short segments of the examples below, each
  inside one cell, that is what the geometric test gives.
\<close>

definition example_narr :: narr_grid where
  "example_narr =
     \<lparr>project_latlng_to_xy = (\<lambda>latitudes longitudes. (longitudes, latitudes)),
      xy_grid_points = ([0, 32463, 64926], [0, 32463, 64926]),
      grid_dimensions = (3, 3),
      xy_grid_spacing = 32463\<rparr>"

definition example_geometry :: geometry where
  "example_geometry =
     \<lparr>linestring_is_valid = (\<lambda>line. 2 \<le> length line),
      intersects = (\<lambda>polygon line.
         list_ex (\<lambda>v. fst (polygon ! 0) \<le> fst v \<and> fst v \<le> fst (polygon ! 2) \<and>
                      snd (polygon ! 0) \<le> snd v \<and> snd v \<le> snd (polygon ! 2)) line),
      touches = (\<lambda>polygon line. False)\<rparr>"

section \<open>Binary closing and connected regions\<close>

text \<open>
  \<open>binary_closing\<close> is the operation of \<open>scipy.ndimage\<close> with the arguments the module
  passes: origin 0, one iteration, and the default border value 0. It is a dilation
  followed by an erosion, and both read a cell outside the image as \<open>False\<close>. The
  structuring element is centred at \<open>(rows div 2, columns div 2)\<close>.
\<close>

definition STRUCTURE_MATRIX_FOR_BINARY_CLOSING :: "bool matrix" where
  \<comment> \<open>\<open>numpy.ones((3, 3))\<close>, every entry nonzero\<close>
  "STRUCTURE_MATRIX_FOR_BINARY_CLOSING = replicate 3 (replicate 3 True)"


definition mask_at :: "bool matrix \<Rightarrow> int \<Rightarrow> int \<Rightarrow> bool" where
  \<comment> \<open>the value of a Boolean image at an integer position, \<open>False\<close> outside the image\<close>
  "mask_at m i j \<longleftrightarrow>
     0 \<le> i \<and> i < int (num_rows m) \<and> 0 \<le> j \<and> j < int (num_columns m) \<and> m ! nat i ! nat j"

definition structure_offsets :: "bool matrix \<Rightarrow> (int \<times> int) list" where
  \<comment> \<open>the offsets, from the centre, of the nonzero cells of a structuring element\<close>
  "structure_offsets structure =
     map (\<lambda>p. (int (fst p) - int (num_rows structure div 2),
               int (snd p) - int (num_columns structure div 2)))
       (where_cells (\<lambda>b. b) structure)"

definition binary_dilation :: "bool matrix \<Rightarrow> bool matrix \<Rightarrow> bool matrix" where
  "binary_dilation input structure =
     tabulate (num_rows input) (num_columns input)
       (\<lambda>i j. list_ex (\<lambda>s. mask_at input (int i - fst s) (int j - snd s))
                (structure_offsets structure))"

definition binary_erosion :: "bool matrix \<Rightarrow> bool matrix \<Rightarrow> bool matrix" where
  "binary_erosion input structure =
     tabulate (num_rows input) (num_columns input)
       (\<lambda>i j. list_all (\<lambda>s. mask_at input (int i + fst s) (int j + snd s))
                 (structure_offsets structure))"

definition binary_closing :: "bool matrix \<Rightarrow> bool matrix \<Rightarrow> bool matrix" where
  "binary_closing input structure =
     binary_erosion (binary_dilation input structure) structure"

definition close_frontal_grid_matrix :: "int matrix \<Rightarrow> int matrix" where
  \<comment> \<open>\<open>_close_frontal_grid_matrix\<close>: both closings are computed from the input, then the
      warm-front cells are written, then the cold-front cells\<close>
  "close_frontal_grid_matrix frontal_grid_matrix =
     (let binary_warm_front_matrix =
            binary_closing (map (map (\<lambda>x. x = WARM_FRONT_INTEGER_ID)) frontal_grid_matrix)
              STRUCTURE_MATRIX_FOR_BINARY_CLOSING;
          binary_cold_front_matrix =
            binary_closing (map (map (\<lambda>x. x = COLD_FRONT_INTEGER_ID)) frontal_grid_matrix)
              STRUCTURE_MATRIX_FOR_BINARY_CLOSING
      in assign_where
           (assign_where frontal_grid_matrix (\<lambda>b. b) binary_warm_front_matrix
              WARM_FRONT_INTEGER_ID)
           (\<lambda>b. b) binary_cold_front_matrix COLD_FRONT_INTEGER_ID)"

definition in_image :: "'a matrix \<Rightarrow> int \<Rightarrow> int \<Rightarrow> bool" where
  \<comment> \<open>an integer position inside the image\<close>
  "in_image m i j \<longleftrightarrow> 0 \<le> i \<and> i < int (num_rows m) \<and> 0 \<le> j \<and> j < int (num_columns m)"


subsection \<open>Connected regions\<close>

text \<open>
  \<open>label_image\<close> is \<open>skimage.measure.label\<close> with \<open>connectivity=2\<close>, as its
  documentation has it: two cells are connected when they are neighbours, here in the
  eight directions, and hold the same value; cells holding 0 are background and get the
  label 0; the regions are numbered from 1 in the row-major order of their first cells.
  The model visits the cells in row-major order and floods the region of every cell that
  is neither background nor labelled yet.
\<close>

definition neighbours :: "nat \<times> nat \<Rightarrow> nat \<times> nat \<Rightarrow> bool" where
  "neighbours p q \<longleftrightarrow>
     p \<noteq> q \<and> \<bar>int (fst p) - int (fst q)\<bar> \<le> 1 \<and> \<bar>int (snd p) - int (snd q)\<bar> \<le> 1"

function grow :: "(nat \<times> nat) list \<Rightarrow> (nat \<times> nat) list \<Rightarrow> (nat \<times> nat) list" where
  "grow pool region =
     (let new = filter (\<lambda>q. q \<notin> set region \<and> list_ex (neighbours q) region) pool
      in if new = [] then region else grow pool (region @ new))"
  by pat_completeness auto

termination
proof (relation "measure (\<lambda>(pool, region). length (filter (\<lambda>q. q \<notin> set region) pool))")
  show "wf (measure (\<lambda>(pool, region). length (filter (\<lambda>q. q \<notin> set region) pool)))"
    by simp
next
  fix pool region :: "(nat \<times> nat) list" and new
  assume new: "new = filter (\<lambda>q. q \<notin> set region \<and> list_ex (neighbours q) region) pool"
    and ne: "new \<noteq> []"
  from ne obtain q where q: "q \<in> set new" by (cases new) auto
  let ?rest = "filter (\<lambda>q. q \<notin> set region) pool"
  have "q \<in> set ?rest" using q new by simp
  then have "length (filter (\<lambda>q. q \<notin> set new) ?rest) < length ?rest"
    using q by (intro length_filter_less) simp_all
  moreover have "filter (\<lambda>q. q \<notin> set (region @ new)) pool = filter (\<lambda>q. q \<notin> set new) ?rest"
    by (simp add: conj_commute)
  ultimately show "((pool, region @ new), (pool, region))
      \<in> measure (\<lambda>(pool, region). length (filter (\<lambda>q. q \<notin> set region) pool))"
    by simp
qed

declare grow.simps [simp del]

definition flood_fill :: "int matrix \<Rightarrow> int matrix \<Rightarrow> nat \<times> nat \<Rightarrow> (nat \<times> nat) list" where
  \<comment> \<open>the cells connected to an unlabelled cell through unlabelled cells of its value\<close>
  "flood_fill pixels labels p =
     grow (where_cells (\<lambda>x. fst x = pixels ! fst p ! snd p \<and> snd x = 0) (map2 zip pixels labels))
       [p]"

fun label_cells :: "int matrix \<Rightarrow> (nat \<times> nat) list \<Rightarrow> int matrix \<times> int \<Rightarrow> int matrix \<times> int" where
  "label_cells pixels [] state = state"
| "label_cells pixels (p # cells) (labels, n) =
     (if pixels ! fst p ! snd p \<noteq> 0 \<and> labels ! fst p ! snd p = 0
      then label_cells pixels cells
             (fold (\<lambda>q l. set_cell l (fst q) (snd q) (n + 1)) (flood_fill pixels labels p) labels,
              n + 1)
      else label_cells pixels cells (labels, n))"

definition label_image :: "int matrix \<Rightarrow> int matrix" where
  "label_image pixels =
     fst (label_cells pixels (where_cells (\<lambda>x. True) pixels) (map (map (\<lambda>x. 0)) pixels, 0))"

record frontal_region_dict =
  row_indices_by_region :: "int list list"
  column_indices_by_region :: "int list list"
  front_type_by_region :: "string list"

definition region_of ::
    "int matrix \<Rightarrow> int matrix \<Rightarrow> nat \<Rightarrow> error + int list \<times> int list \<times> string" where
  \<comment> \<open>one pass of the loop \<open>for i in range(num_regions)\<close> of \<open>frontal_grid_to_regions\<close>\<close>
  "region_of frontal_grid_matrix region_matrix i =
     (let (row_indices, column_indices) = numpy_where (\<lambda>x. x = int i + 1) region_matrix
      in case (python_first row_indices, python_first column_indices) of
           (Inr first_row, Inr first_column) \<Rightarrow>
             (let this_integer_id = frontal_grid_matrix ! nat first_row ! nat first_column
              in Inr (row_indices, column_indices,
                      if this_integer_id = WARM_FRONT_INTEGER_ID then WARM_FRONT_STRING_ID
                      else if this_integer_id = COLD_FRONT_INTEGER_ID then COLD_FRONT_STRING_ID
                      else ''''))
         | _ \<Rightarrow> Inl IndexError)"

definition frontal_grid_to_regions :: "int matrix \<Rightarrow> error + frontal_region_dict" where
  \<comment> \<open>the name \<open>frontal_grid_matrix\<close> is bound to the closed matrix before the regions are
      labelled and before the front types are read\<close>
  "frontal_grid_to_regions frontal_grid_matrix =
     (let frontal_grid_matrix = close_frontal_grid_matrix frontal_grid_matrix;
          region_matrix = label_image frontal_grid_matrix
      in case numpy_max (concat region_matrix) of
           Inl e \<Rightarrow> Inl e
         | Inr num_regions \<Rightarrow>
             (case collect_results
                     (map (region_of frontal_grid_matrix region_matrix) [0..<nat num_regions]) of
                Inl e \<Rightarrow> Inl e
              | Inr regions \<Rightarrow>
                  Inr \<lparr>row_indices_by_region = map fst regions,
                       column_indices_by_region = map (\<lambda>r. fst (snd r)) regions,
                       front_type_by_region = map (\<lambda>r. snd (snd r)) regions\<rparr>))"

definition labelled :: "int matrix \<Rightarrow> int matrix \<Rightarrow> int \<Rightarrow> nat \<Rightarrow> nat \<Rightarrow> bool" where
  \<comment> \<open>what holds of the labels after every step of \<open>label_cells\<close>: they run from 0 to
      \<open>n\<close>, every label from 1 to \<open>n\<close> is in use, only cells that are not background
      are labelled, and the cells of one label hold one value\<close>
  "labelled pixels labels n R C \<longleftrightarrow>
     is_matrix R C labels \<and> 0 \<le> n \<and>
     (\<forall>i<R. \<forall>j<C. 0 \<le> labels ! i ! j \<and> labels ! i ! j \<le> n \<and>
        (labels ! i ! j \<noteq> 0 \<longrightarrow> pixels ! i ! j \<noteq> 0)) \<and>
     (\<forall>k. 1 \<le> k \<and> k \<le> n \<longrightarrow> (\<exists>i<R. \<exists>j<C. labels ! i ! j = k)) \<and>
     (\<forall>i<R. \<forall>j<C. \<forall>i'<R. \<forall>j'<C.
        labels ! i ! j \<noteq> 0 \<and> labels ! i ! j = labels ! i' ! j' \<longrightarrow>
        pixels ! i ! j = pixels ! i' ! j')"

definition region_type :: "int matrix \<Rightarrow> int matrix \<Rightarrow> nat \<Rightarrow> string" where
  \<comment> \<open>the front type read at the first cell, in row-major order, of the region with
      label \<open>k + 1\<close>\<close>
  "region_type frontal_grid_matrix region_matrix k =
     (let first_cell = hd (where_cells (\<lambda>x. x = int k + 1) region_matrix);
          this_integer_id = frontal_grid_matrix ! fst first_cell ! snd first_cell
      in if this_integer_id = WARM_FRONT_INTEGER_ID then WARM_FRONT_STRING_ID
         else if this_integer_id = COLD_FRONT_INTEGER_ID then COLD_FRONT_STRING_ID
         else '''')"


definition linked :: "int matrix \<Rightarrow> nat \<Rightarrow> nat \<Rightarrow> nat \<times> nat \<Rightarrow> nat \<times> nat \<Rightarrow> bool" where
  \<comment> \<open>one step of 8-connectivity: two neighbouring cells of an \<open>R\<close>-by-\<open>C\<close> image that
      hold the same value\<close>
  "linked pixels R C p q \<longleftrightarrow>
     fst p < R \<and> snd p < C \<and> fst q < R \<and> snd q < C \<and> neighbours p q \<and>
     pixels ! fst p ! snd p = pixels ! fst q ! snd q"

definition components :: "int matrix \<Rightarrow> int matrix \<Rightarrow> nat \<Rightarrow> nat \<Rightarrow> bool" where
  \<comment> \<open>what holds of the regions labelled so far: two cells of one label are joined by
      a chain of linked cells, and a cell linked to a labelled cell has its label\<close>
  "components pixels labels R C \<longleftrightarrow>
     (\<forall>i<R. \<forall>j<C. \<forall>i'<R. \<forall>j'<C.
        labels ! i ! j \<noteq> 0 \<and> labels ! i ! j = labels ! i' ! j' \<longrightarrow>
        (linked pixels R C)\<^sup>*\<^sup>* (i, j) (i', j')) \<and>
     (\<forall>p q. linked pixels R C p q \<and> labels ! fst p ! snd p \<noteq> 0 \<longrightarrow>
        labels ! fst q ! snd q = labels ! fst p ! snd p)"

section \<open>Front types from thermal advection\<close>

text \<open>
  \<open>numpy.gradient\<close> with its default edge order: central differences inside an axis,
  one-sided differences at its two ends, and an error when an axis has fewer than two
  elements. The fields are real numbers. A zero grid spacing makes numpy divide by zero in
  floating point, which gives infinities and NaN and no exception; the real numbers have
  neither, and the model stops there with \<open>FloatingPointError\<close>. The docstrings want the
  four arrays of one shape; numpy would broadcast a few other shapes, the model refuses
  every other shape.
\<close>

definition gradient_1d :: "real list \<Rightarrow> real \<Rightarrow> nat \<Rightarrow> real" where
  "gradient_1d f h k =
     (if k = 0 then (f ! 1 - f ! 0) / h
      else if k = length f - 1 then (f ! k - f ! (k - 1)) / h
      else (f ! (k + 1) - f ! (k - 1)) / (2 * h))"

definition matrix_column :: "'a matrix \<Rightarrow> nat \<Rightarrow> 'a list" where
  "matrix_column m j = map (\<lambda>row. row ! j) m"

definition numpy_gradient ::
    "real matrix \<Rightarrow> real \<Rightarrow> real \<Rightarrow> error + real matrix \<times> real matrix" where
  \<comment> \<open>\<open>numpy.gradient(f, dy, dx)\<close>: the gradient along the rows axis, then along the
      columns axis\<close>
  "numpy_gradient f dy dx =
     (if num_rows f < 2 \<or> num_columns f < 2 then Inl ValueError
      else if dy = 0 \<or> dx = 0 then Inl FloatingPointError
      else Inr (tabulate (num_rows f) (num_columns f)
                  (\<lambda>i j. gradient_1d (matrix_column f j) dy i),
                tabulate (num_rows f) (num_columns f)
                  (\<lambda>i j. gradient_1d (f ! i) dx j)))"

definition same_shape :: "'a matrix \<Rightarrow> 'b matrix \<Rightarrow> bool" where
  "same_shape a b \<longleftrightarrow> map length a = map length b"

definition get_thermal_advection_over_grid ::
    "real matrix \<Rightarrow> real matrix \<Rightarrow> real matrix \<Rightarrow> real \<Rightarrow> real \<Rightarrow> error + real matrix" where
  \<comment> \<open>\<open>_get_thermal_advection_over_grid\<close>\<close>
  "get_thermal_advection_over_grid grid_relative_u_wind_matrix_m_s01
       grid_relative_v_wind_matrix_m_s01 thermal_param_matrix_kelvins
       grid_spacing_x_metres grid_spacing_y_metres =
     (case numpy_gradient thermal_param_matrix_kelvins grid_spacing_y_metres
             grid_spacing_x_metres of
        Inl e \<Rightarrow> Inl e
      | Inr (y_gradient_matrix_kelvins_m01, x_gradient_matrix_kelvins_m01) \<Rightarrow>
          if \<not> same_shape grid_relative_u_wind_matrix_m_s01 thermal_param_matrix_kelvins \<or>
             \<not> same_shape grid_relative_v_wind_matrix_m_s01 thermal_param_matrix_kelvins
          then Inl ValueError
          else Inr (tabulate (num_rows thermal_param_matrix_kelvins)
                      (num_columns thermal_param_matrix_kelvins)
                      (\<lambda>i j. - (grid_relative_u_wind_matrix_m_s01 ! i ! j *
                                   x_gradient_matrix_kelvins_m01 ! i ! j +
                                 grid_relative_v_wind_matrix_m_s01 ! i ! j *
                                   y_gradient_matrix_kelvins_m01 ! i ! j))))"

definition get_frontal_types_over_grid ::
    "real matrix \<Rightarrow> real matrix \<Rightarrow> real matrix \<Rightarrow> bool matrix \<Rightarrow> real \<Rightarrow> real \<Rightarrow>
     error + int matrix" where
  "get_frontal_types_over_grid grid_relative_u_wind_matrix_m_s01
       grid_relative_v_wind_matrix_m_s01 thermal_param_matrix_kelvins binary_matrix
       grid_spacing_x_metres grid_spacing_y_metres =
     (case get_thermal_advection_over_grid grid_relative_u_wind_matrix_m_s01
             grid_relative_v_wind_matrix_m_s01 thermal_param_matrix_kelvins
             grid_spacing_x_metres grid_spacing_y_metres of
        Inl e \<Rightarrow> Inl e
      | Inr thermal_advection_matrix_kelvins_m01 \<Rightarrow>
          if \<not> same_shape thermal_advection_matrix_kelvins_m01 binary_matrix then Inl ValueError
          else
            (let (warm_front_row_indices, warm_front_column_indices) =
                   numpy_where (\<lambda>p. fst p > 0 \<and> snd p)
                     (map2 zip thermal_advection_matrix_kelvins_m01 binary_matrix);
                 (cold_front_row_indices, cold_front_column_indices) =
                   numpy_where (\<lambda>p. fst p \<le> 0 \<and> snd p)
                     (map2 zip thermal_advection_matrix_kelvins_m01 binary_matrix);
                 num_grid_rows = num_rows binary_matrix;
                 num_grid_columns = num_columns binary_matrix
             in case assign_points (full num_grid_rows num_grid_columns NO_FRONT_INTEGER_ID)
                       warm_front_row_indices warm_front_column_indices
                       WARM_FRONT_INTEGER_ID of
                  Inl e \<Rightarrow> Inl e
                | Inr frontal_grid_matrix \<Rightarrow>
                    assign_points frontal_grid_matrix
                      cold_front_row_indices cold_front_column_indices
                      COLD_FRONT_INTEGER_ID))"

section \<open>Evaluating the buffer mask\<close>

text \<open>
  The mask compares a multiple of a square root with the buffer distance. Both sides are
  non-negative wherever the comparison is reached, so it can be decided on the squares.
\<close>

lemma spacing_sqrt_le_iff:
  assumes "0 < sp" "0 \<le> d" "0 \<le> s"
  shows "sp * sqrt s \<le> d \<longleftrightarrow> sp\<^sup>2 * s \<le> d\<^sup>2"
proof -
  have "sp * sqrt s \<le> d \<longleftrightarrow> (sp * sqrt s)\<^sup>2 \<le> d\<^sup>2"
    using assms by (simp add: abs_le_square_iff [symmetric])
  also have "(sp * sqrt s)\<^sup>2 = sp\<^sup>2 * s"
    using assms by (simp add: power_mult_distrib)
  finally show ?thesis .
qed

lemma buffer_distance_to_narr_mask_code [code]:
  "buffer_distance_to_narr_mask grid_spacing_metres buffer_distance_metres =
     (if \<not> buffer_distance_metres > 0 then Inl ValueError
      else if grid_spacing_metres = 0 then Inl ZeroDivisionError
      else
        (let buffer_distance_metres = max buffer_distance_metres 1;
             max_row_or_column_offset = \<lfloor>buffer_distance_metres / grid_spacing_metres\<rfloor>
         in if max_row_or_column_offset < 0 then Inl ValueError
            else
              (let row_or_column_offsets = [- max_row_or_column_offset..max_row_or_column_offset]
               in Inr (map (\<lambda>row_offset. map (\<lambda>column_offset.
                         grid_spacing_metres\<^sup>2 *
                           ((real_of_int row_offset)\<^sup>2 + (real_of_int column_offset)\<^sup>2)
                         \<le> buffer_distance_metres\<^sup>2) row_or_column_offsets)
                       row_or_column_offsets))))"
proof -
  have pos: "0 < grid_spacing_metres"
    if "grid_spacing_metres \<noteq> 0" "0 \<le> \<lfloor>max buffer_distance_metres 1 / grid_spacing_metres\<rfloor>"
    using that by (metis divide_less_0_iff floor_less_zero less_numeral_extra(1) linorder_neqE_linordered_idom max.strict_coboundedI2 not_le)
  show ?thesis
    unfolding buffer_distance_to_narr_mask_def Let_def
    using pos by (auto simp add: spacing_sqrt_le_iff)
qed


section \<open>Grid indexing and the round trip between points and grid\<close>

lemma is_matrix_full: "is_matrix R C (full R C v)"
  by (simp add: is_matrix_def full_def list_all_iff)

lemma is_matrix_row: "is_matrix R C m \<Longrightarrow> i < R \<Longrightarrow> length (m ! i) = C"
  by (simp add: is_matrix_def list_all_length)

lemma is_matrix_num_rows: "is_matrix R C m \<Longrightarrow> num_rows m = R"
  by (simp add: is_matrix_def num_rows_def)

lemma is_matrix_num_columns: "is_matrix R C m \<Longrightarrow> 0 < R \<Longrightarrow> num_columns m = C"
  by (cases m) (simp_all add: is_matrix_def num_columns_def)

lemma is_matrix_set_cell: "is_matrix R C m \<Longrightarrow> is_matrix R C (set_cell m i j v)"
  by (cases "i < length m")
     (auto simp add: is_matrix_def set_cell_def list_all_length nth_list_update)

lemma nth_set_cell:
  "is_matrix R C m \<Longrightarrow> i < R \<Longrightarrow> j < C \<Longrightarrow> a < R \<Longrightarrow> b < C \<Longrightarrow>
   set_cell m i j v ! a ! b = (if a = i \<and> b = j then v else m ! a ! b)"
  by (auto simp add: set_cell_def nth_list_update is_matrix_def list_all_length)

lemma assign_cells_in_grid:
  "is_matrix R C m \<Longrightarrow> list_all (in_grid R C) ps \<Longrightarrow>
   \<exists>m'. assign_cells m ps v = Inr m' \<and> is_matrix R C m' \<and>
     (\<forall>a<R. \<forall>b<C. m' ! a ! b = (if (int a, int b) \<in> set ps then v else m ! a ! b))"
proof (induction ps arbitrary: m)
  case Nil
  then show ?case by simp
next
  case (Cons p ps)
  obtain r c where p: "p = (r, c)" by (cases p)
  from Cons.prems(2) have ip: "in_grid R C p" and rest: "list_all (in_grid R C) ps"
    by simp_all
  from ip have rc: "0 \<le> r" "r < int R" "0 \<le> c" "c < int C"
    by (simp_all add: p in_grid_def)
  then have R: "0 < R" by simp
  have wr: "wrap_index (num_rows m) r = Some (nat r)"
    using rc Cons.prems(1) by (simp add: wrap_index_def is_matrix_num_rows)
  have wc: "wrap_index (num_columns m) c = Some (nat c)"
    using rc Cons.prems(1) R by (simp add: wrap_index_def is_matrix_num_columns)
  let ?m1 = "set_cell m (nat r) (nat c) v"
  have m1: "is_matrix R C ?m1" using Cons.prems(1) by (rule is_matrix_set_cell)
  from Cons.IH [OF m1 rest] obtain m' where
    m': "assign_cells ?m1 ps v = Inr m'" "is_matrix R C m'"
    "\<forall>a<R. \<forall>b<C. m' ! a ! b = (if (int a, int b) \<in> set ps then v else ?m1 ! a ! b)"
    by blast
  have "assign_cells m (p # ps) v = Inr m'"
    using m'(1) wr wc by (simp add: p)
  moreover have "\<forall>a<R. \<forall>b<C. m' ! a ! b = (if (int a, int b) \<in> set (p # ps) then v else m ! a ! b)"
  proof (intro allI impI)
    fix a b assume ab: "a < R" "b < C"
    have nr: "nat r < R" "nat c < C" using rc by simp_all
    have "?m1 ! a ! b = (if a = nat r \<and> b = nat c then v else m ! a ! b)"
      using nth_set_cell [OF Cons.prems(1) nr ab] .
    moreover have "(a = nat r \<and> b = nat c) \<longleftrightarrow> (int a, int b) = p"
      using rc by (auto simp add: p)
    ultimately show "m' ! a ! b = (if (int a, int b) \<in> set (p # ps) then v else m ! a ! b)"
      using m'(3) ab by auto
  qed
  ultimately show ?case using m'(2) by blast
qed

lemma set_where_cells:
  "set (where_cells P m) = {(i, j). i < length m \<and> j < length (m ! i) \<and> P (m ! i ! j)}"
  by (auto simp add: where_cells_def)

lemma distinct_concat_map:
  "distinct xs \<Longrightarrow> \<forall>x. distinct (f x) \<Longrightarrow>
   \<forall>x y. x \<noteq> y \<longrightarrow> set (f x) \<inter> set (f y) = {} \<Longrightarrow> distinct (concat (map f xs))"
proof (induction xs)
  case Nil
  then show ?case by simp
next
  case (Cons a xs)
  have "set (f a) \<inter> set (f x) = {}" if "x \<in> set xs" for x
  proof -
    have "a \<noteq> x" using Cons.prems(1) that by auto
    then show ?thesis using Cons.prems(3) by blast
  qed
  then show ?case using Cons by auto
qed

lemma distinct_where_cells: "distinct (where_cells P m)"
  unfolding where_cells_def
  by (rule distinct_concat_map) (auto simp add: distinct_map inj_on_def)

lemma zip_numpy_where:
  "zip (fst (numpy_where P m)) (snd (numpy_where P m)) =
   map (\<lambda>p. (int (fst p), int (snd p))) (where_cells P m)"
  by (simp add: numpy_where_def zip_map_map) (simp add: zip_same_conv_map)

lemma set_zip_numpy_where:
  "is_matrix R C m \<Longrightarrow>
   set (zip (fst (numpy_where P m)) (snd (numpy_where P m))) =
   {(int i, int j) | i j. i < R \<and> j < C \<and> P (m ! i ! j)}"
  unfolding zip_numpy_where set_map set_where_cells
  by (auto simp add: is_matrix_def list_all_length image_iff)

lemma distinct_zip_numpy_where:
  "distinct (zip (fst (numpy_where P m)) (snd (numpy_where P m)))"
  unfolding zip_numpy_where
  by (simp add: distinct_map distinct_where_cells inj_on_def prod_eq_iff)

lemma assign_points_in_grid:
  assumes "is_matrix R C m" "length rows = length columns"
    "list_all (in_grid R C) (zip rows columns)"
  shows "\<exists>m'. assign_points m rows columns v = Inr m' \<and> is_matrix R C m' \<and>
     (\<forall>a<R. \<forall>b<C. m' ! a ! b = (if (int a, int b) \<in> set (zip rows columns) then v else m ! a ! b))"
  using assign_cells_in_grid [OF assms(1,3), of v] assms(2)
  by (simp add: assign_points_def broadcast_indices_def)

text \<open>
  Claim C1 (round-trip law of the Rasterizer). Take warm and cold index arrays whose
  (row, column) pairs all lie in the grid and share no cell. Then
  \<open>frontal_points_to_grid\<close> succeeds, \<open>frontal_grid_to_points\<close> succeeds on its result,
  and the warm pairs and the cold pairs it returns are, as sets, the ones given; the
  returned pairs hold no duplicate. (The law holds even when the given arrays repeat a
  pair.)
\<close>

theorem frontal_points_round_trip:
  assumes "length wr = length wc" and "length cr = length cc"
    and "list_all (in_grid R C) (zip wr wc)" and "list_all (in_grid R C) (zip cr cc)"
    and "set (zip wr wc) \<inter> set (zip cr cc) = {}"
  shows "\<exists>g d.
     frontal_points_to_grid
       \<lparr>warm_front_row_indices = wr, warm_front_column_indices = wc,
        cold_front_row_indices = cr, cold_front_column_indices = cc\<rparr> R C = Inr g \<and>
     frontal_grid_to_points g = Inr d \<and>
     set (zip (warm_front_row_indices d) (warm_front_column_indices d)) = set (zip wr wc) \<and>
     set (zip (cold_front_row_indices d) (cold_front_column_indices d)) = set (zip cr cc) \<and>
     distinct (zip (warm_front_row_indices d) (warm_front_column_indices d)) \<and>
     distinct (zip (cold_front_row_indices d) (cold_front_column_indices d))"
proof -
  let ?W = "set (zip wr wc)" and ?K = "set (zip cr cc)"
  obtain g1 where g1: "assign_points (full R C NO_FRONT_INTEGER_ID) wr wc WARM_FRONT_INTEGER_ID = Inr g1"
    "is_matrix R C g1"
    "\<forall>a<R. \<forall>b<C. g1 ! a ! b = (if (int a, int b) \<in> ?W then WARM_FRONT_INTEGER_ID
        else full R C NO_FRONT_INTEGER_ID ! a ! b)"
    using assign_points_in_grid [OF is_matrix_full [of R C NO_FRONT_INTEGER_ID] assms(1,3), of WARM_FRONT_INTEGER_ID] by blast
  obtain g where g: "assign_points g1 cr cc COLD_FRONT_INTEGER_ID = Inr g" "is_matrix R C g"
    "\<forall>a<R. \<forall>b<C. g ! a ! b = (if (int a, int b) \<in> ?K then COLD_FRONT_INTEGER_ID else g1 ! a ! b)"
    using assign_points_in_grid [OF g1(2) assms(2,4), of COLD_FRONT_INTEGER_ID] by blast
  have cell: "g ! a ! b = (if (int a, int b) \<in> ?K then 2 else if (int a, int b) \<in> ?W then 1 else 0)"
    if "a < R" "b < C" for a b
    using that g(3) g1(3)
    by (simp add: full_def COLD_FRONT_INTEGER_ID_def WARM_FRONT_INTEGER_ID_def NO_FRONT_INTEGER_ID_def)
  have rows: "length (g ! a) = C" if "a < R" for a
    using is_matrix_row [OF g(2) that] .
  have len: "length g = R" using g(2) by (simp add: is_matrix_def)
  have ge: "list_all (list_all (\<lambda>x. NO_FRONT_INTEGER_ID \<le> x)) g"
    unfolding list_all_length NO_FRONT_INTEGER_ID_def using cell rows len by simp
  have le: "list_all (list_all (\<lambda>x. x \<le> COLD_FRONT_INTEGER_ID)) g"
    unfolding list_all_length COLD_FRONT_INTEGER_ID_def using cell rows len by simp
  define d where "d = \<lparr>warm_front_row_indices = fst (numpy_where (\<lambda>x. x = WARM_FRONT_INTEGER_ID) g),
     warm_front_column_indices = snd (numpy_where (\<lambda>x. x = WARM_FRONT_INTEGER_ID) g),
     cold_front_row_indices = fst (numpy_where (\<lambda>x. x = COLD_FRONT_INTEGER_ID) g),
     cold_front_column_indices = snd (numpy_where (\<lambda>x. x = COLD_FRONT_INTEGER_ID) g)\<rparr>"
  have to_points: "frontal_grid_to_points g = Inr d"
    using ge le by (simp add: frontal_grid_to_points_def d_def split_beta)
  have to_grid: "frontal_points_to_grid
       \<lparr>warm_front_row_indices = wr, warm_front_column_indices = wc,
        cold_front_row_indices = cr, cold_front_column_indices = cc\<rparr> R C = Inr g"
    using g1(1) g(1) by (simp add: frontal_points_to_grid_def)
  have inW: "0 \<le> fst p \<and> fst p < int R \<and> 0 \<le> snd p \<and> snd p < int C" if "p \<in> ?W" for p
    using assms(3) that by (auto simp add: list_all_iff in_grid_def)
  have inK: "0 \<le> fst p \<and> fst p < int R \<and> 0 \<le> snd p \<and> snd p < int C" if "p \<in> ?K" for p
    using assms(4) that by (auto simp add: list_all_iff in_grid_def)
  have warm: "set (zip (warm_front_row_indices d) (warm_front_column_indices d)) = ?W"
  proof -
    have "{(int i, int j) | i j. i < R \<and> j < C \<and> g ! i ! j = WARM_FRONT_INTEGER_ID} = ?W"
    proof (intro set_eqI iffI)
      fix p assume "p \<in> {(int i, int j) | i j. i < R \<and> j < C \<and> g ! i ! j = WARM_FRONT_INTEGER_ID}"
      then obtain i j where ij: "p = (int i, int j)" "i < R" "j < C" "g ! i ! j = 1"
        by (auto simp add: WARM_FRONT_INTEGER_ID_def)
      then show "p \<in> ?W" using cell [OF ij(2,3)] by (auto split: if_splits)
    next
      fix p assume p: "p \<in> ?W"
      then have nk: "p \<notin> ?K" using assms(5) by blast
      from inW [OF p] obtain i j where ij: "p = (int i, int j)" "i < R" "j < C"
        by (metis nat_less_iff prod.collapse nat_0_le)
      then have "g ! i ! j = 1" using cell [OF ij(2,3)] p nk by simp
      then show "p \<in> {(int i, int j) | i j. i < R \<and> j < C \<and> g ! i ! j = WARM_FRONT_INTEGER_ID}"
        using ij by (auto simp add: WARM_FRONT_INTEGER_ID_def)
    qed
    then show ?thesis
      using set_zip_numpy_where [OF g(2), of "\<lambda>x. x = WARM_FRONT_INTEGER_ID"] by (simp add: d_def)
  qed
  have cold: "set (zip (cold_front_row_indices d) (cold_front_column_indices d)) = ?K"
  proof -
    have "{(int i, int j) | i j. i < R \<and> j < C \<and> g ! i ! j = COLD_FRONT_INTEGER_ID} = ?K"
    proof (intro set_eqI iffI)
      fix p assume "p \<in> {(int i, int j) | i j. i < R \<and> j < C \<and> g ! i ! j = COLD_FRONT_INTEGER_ID}"
      then obtain i j where ij: "p = (int i, int j)" "i < R" "j < C" "g ! i ! j = 2"
        by (auto simp add: COLD_FRONT_INTEGER_ID_def)
      then show "p \<in> ?K" using cell [OF ij(2,3)] by (auto split: if_splits)
    next
      fix p assume p: "p \<in> ?K"
      from inK [OF p] obtain i j where ij: "p = (int i, int j)" "i < R" "j < C"
        by (metis nat_less_iff prod.collapse nat_0_le)
      then have "g ! i ! j = 2" using cell [OF ij(2,3)] p by simp
      then show "p \<in> {(int i, int j) | i j. i < R \<and> j < C \<and> g ! i ! j = COLD_FRONT_INTEGER_ID}"
        using ij by (auto simp add: COLD_FRONT_INTEGER_ID_def)
    qed
    then show ?thesis
      using set_zip_numpy_where [OF g(2), of "\<lambda>x. x = COLD_FRONT_INTEGER_ID"] by (simp add: d_def)
  qed
  have "distinct (zip (warm_front_row_indices d) (warm_front_column_indices d))"
    "distinct (zip (cold_front_row_indices d) (cold_front_column_indices d))"
    by (simp_all add: d_def distinct_zip_numpy_where)
  with to_grid to_points warm cold show ?thesis by blast
qed

theorem frontal_points_round_trip_witness:
  "\<exists>g d.
     frontal_points_to_grid
       \<lparr>warm_front_row_indices = [0, 1], warm_front_column_indices = [2, 0],
        cold_front_row_indices = [1], cold_front_column_indices = [1]\<rparr> 2 3 = Inr g \<and>
     frontal_grid_to_points g = Inr d \<and>
     set (zip (warm_front_row_indices d) (warm_front_column_indices d)) = {(0, 2), (1, 0)} \<and>
     set (zip (cold_front_row_indices d) (cold_front_column_indices d)) = {(1, 1)}"
proof -
  have "\<exists>g d.
     frontal_points_to_grid
       \<lparr>warm_front_row_indices = [0, 1], warm_front_column_indices = [2, 0],
        cold_front_row_indices = [1], cold_front_column_indices = [1]\<rparr> 2 3 = Inr g \<and>
     frontal_grid_to_points g = Inr d \<and>
     set (zip (warm_front_row_indices d) (warm_front_column_indices d)) = set (zip [0, 1] [2, 0]) \<and>
     set (zip (cold_front_row_indices d) (cold_front_column_indices d)) = set (zip [1] [1]) \<and>
     distinct (zip (warm_front_row_indices d) (warm_front_column_indices d)) \<and>
     distinct (zip (cold_front_row_indices d) (cold_front_column_indices d))"
    by (rule frontal_points_round_trip) (simp_all add: in_grid_def)
  then show ?thesis by auto
qed

section \<open>Properties of the ternary dilation\<close>


lemma all_cells_length:
  "all_cells P m \<longleftrightarrow> (\<forall>i<length m. \<forall>j<length (m ! i). P (m ! i ! j))"
  by (simp add: all_cells_def list_all_length)

lemma fold_max_Max: "fold max xs (a::int) = Max (set (a # xs))"
  using Max.set_eq_fold [of a xs] by simp

lemma fold_max_binary:
  assumes "\<forall>x\<in>set xs. x = 0 \<or> x = (1::int)"
  shows "fold max xs 0 = (if 1 \<in> set xs then 1 else 0)"
proof (cases "1 \<in> set xs")
  case True
  have "Max (set (0 # xs)) = 1"
    by (rule Max_eqI) (use assms True in auto)
  then show ?thesis using True by (simp add: fold_max_Max)
next
  case False
  then have "set (0 # xs) = {0}" using assms by auto
  then show ?thesis using False by (simp add: fold_max_Max del: set_simps)
qed

lemma is_matrix_cv2_dilate: "is_matrix R C src \<Longrightarrow> is_matrix R C (cv2_dilate src k)"
  by (cases "R = 0")
     (auto simp add: cv2_dilate_def is_matrix_def num_rows_def list_all_iff
        is_matrix_num_columns [unfolded is_matrix_def])

lemma nth_cv2_dilate:
  "is_matrix R C src \<Longrightarrow> i < R \<Longrightarrow> j < C \<Longrightarrow>
   cv2_dilate src k ! i ! j = fold max (covered_values src (kernel_cells k) i j) 0"
  using is_matrix_num_columns [of R C src]
  by (simp add: cv2_dilate_def is_matrix_num_rows)

lemma in_covered_values:
  assumes "is_matrix R C src" "i < R"
  shows "x \<in> set (covered_values src offsets i j) \<longleftrightarrow>
    (\<exists>p\<in>set offsets. 0 \<le> int i + fst p \<and> int i + fst p < int R \<and>
       0 \<le> int j + snd p \<and> int j + snd p < int C \<and>
       x = src ! nat (int i + fst p) ! nat (int j + snd p))"
proof -
  have nc: "num_columns src = C" and nr: "num_rows src = R"
    using assms is_matrix_num_columns [of R C src] by (simp_all add: is_matrix_num_rows)
  show ?thesis unfolding covered_values_def nc nr by auto
qed

lemma nth_binary_front_matrix:
  "i < length m \<Longrightarrow> j < length (m ! i) \<Longrightarrow>
   binary_front_matrix t m ! i ! j = (if m ! i ! j = t then 1 else 0)"
  by (simp add: binary_front_matrix_def ANY_FRONT_INTEGER_ID_def NO_FRONT_INTEGER_ID_def)

lemma is_matrix_binary_front_matrix:
  "is_matrix R C m \<Longrightarrow> is_matrix R C (binary_front_matrix t m)"
  by (simp add: binary_front_matrix_def is_matrix_def list_all_iff)

lemma dilated_front_cell:
  assumes m: "is_matrix R C m" and ij: "i < R" "j < C"
  shows "cv2_dilate (binary_front_matrix t m) k ! i ! j =
    (if \<exists>p\<in>set (kernel_cells k). 0 \<le> int i + fst p \<and> int i + fst p < int R \<and>
          0 \<le> int j + snd p \<and> int j + snd p < int C \<and>
          m ! nat (int i + fst p) ! nat (int j + snd p) = t
     then 1 else 0)"
proof -
  let ?b = "binary_front_matrix t m"
  let ?vs = "covered_values ?b (kernel_cells k) i j"
  have bm: "is_matrix R C ?b" using m by (rule is_matrix_binary_front_matrix)
  have cellb: "?b ! a ! c = (if m ! a ! c = t then 1 else 0)" if "a < R" "c < C" for a c
    using that m nth_binary_front_matrix [of a m c t] is_matrix_row [OF m that(1)]
    by (simp add: is_matrix_def)
  have mem: "x \<in> set ?vs \<longleftrightarrow>
    (\<exists>p\<in>set (kernel_cells k). 0 \<le> int i + fst p \<and> int i + fst p < int R \<and>
       0 \<le> int j + snd p \<and> int j + snd p < int C \<and>
       x = (if m ! nat (int i + fst p) ! nat (int j + snd p) = t then 1 else 0))" for x
    unfolding in_covered_values [OF bm ij(1)]
    by (intro bex_cong refl conj_cong) (simp add: cellb)
  have bin: "\<forall>x\<in>set ?vs. x = 0 \<or> x = 1"
  proof
    fix x assume "x \<in> set ?vs"
    then show "x = 0 \<or> x = 1" unfolding mem by auto
  qed
  have one: "1 \<in> set ?vs \<longleftrightarrow>
    (\<exists>p\<in>set (kernel_cells k). 0 \<le> int i + fst p \<and> int i + fst p < int R \<and>
          0 \<le> int j + snd p \<and> int j + snd p < int C \<and>
          m ! nat (int i + fst p) ! nat (int j + snd p) = t)"
    unfolding mem by (intro bex_cong refl conj_cong) simp
  show ?thesis
    unfolding nth_cv2_dilate [OF bm ij] fold_max_binary [OF bin] one ..
qed


lemma numpy_min_nonempty:
  assumes "xs \<noteq> []"
  shows "numpy_min xs = Inr (Min (set xs))"
proof (cases xs)
  case Nil
  then show ?thesis using assms by simp
next
  case (Cons a rest)
  then show ?thesis using Min.set_eq_fold [of a rest] by (simp add: numpy_min_def)
qed

lemma min_squared_distance_where:
  assumes "where_cells (\<lambda>x. x = t) m \<noteq> []"
  shows "min_squared_distance (int i) (int j) (numpy_where (\<lambda>x. x = t) m) =
         Inr (front_distance t m i j)"
proof -
  let ?ps = "where_cells (\<lambda>x. x = t) m"
  have z: "zip (fst (numpy_where (\<lambda>x. x = t) m)) (snd (numpy_where (\<lambda>x. x = t) m)) =
        map (\<lambda>p. (int (fst p), int (snd p))) ?ps"
    by (rule zip_numpy_where)
  have "min_squared_distance (int i) (int j) (numpy_where (\<lambda>x. x = t) m) =
        numpy_min (map (\<lambda>p. (int i - int (fst p))\<^sup>2 + (int j - int (snd p))\<^sup>2) ?ps)"
    unfolding min_squared_distance_def z by (simp add: comp_def)
  also have "\<dots> = Inr (front_distance t m i j)"
    using assms by (simp add: numpy_min_nonempty front_distance_def)
  finally show ?thesis .
qed

lemma front_distance_ge0:
  "where_cells (\<lambda>x. x = t) m \<noteq> [] \<Longrightarrow> 0 \<le> front_distance t m i j"
  unfolding front_distance_def by (subst Min_ge_iff) auto

lemma front_distance_own:
  assumes "i < length m" "j < length (m ! i)" "m ! i ! j = t"
  shows "front_distance t m i j = 0"
proof -
  have mem: "(i, j) \<in> set (where_cells (\<lambda>x. x = t) m)"
    using assms by (simp add: set_where_cells)
  then have ne: "where_cells (\<lambda>x. x = t) m \<noteq> []" by auto
  have "front_distance t m i j \<le> 0"
    unfolding front_distance_def
    by (rule Min_le_iff [THEN iffD2]) (use mem in \<open>auto intro!: bexI [of _ "(i, j)"]\<close>)
  with front_distance_ge0 [OF ne, of i j] show ?thesis by simp
qed

lemma front_distance_other:
  assumes ne: "where_cells (\<lambda>x. x = t) m \<noteq> []" and "m ! i ! j \<noteq> t"
  shows "1 \<le> front_distance t m i j"
  unfolding front_distance_def
proof (subst Min_ge_iff)
  show "finite ((\<lambda>p. (int i - int (fst p))\<^sup>2 + (int j - int (snd p))\<^sup>2) `
          set (where_cells (\<lambda>x. x = t) m))" by simp
  show "(\<lambda>p. (int i - int (fst p))\<^sup>2 + (int j - int (snd p))\<^sup>2) `
          set (where_cells (\<lambda>x. x = t) m) \<noteq> {}" using ne by simp
  show "\<forall>a\<in>(\<lambda>p. (int i - int (fst p))\<^sup>2 + (int j - int (snd p))\<^sup>2) `
          set (where_cells (\<lambda>x. x = t) m). 1 \<le> a"
  proof (clarify)
    fix a b assume "(a, b) \<in> set (where_cells (\<lambda>x. x = t) m)"
    then have "m ! a ! b = t" by (simp add: set_where_cells)
    with assms(2) have "a \<noteq> i \<or> b \<noteq> j" by auto
    then have "int i - int a \<noteq> 0 \<or> int j - int b \<noteq> 0" by auto
    then have "0 < (int i - int a)\<^sup>2 + (int j - int b)\<^sup>2"
      by (metis sum_power2_gt_zero_iff)
    then show "1 \<le> (int i - int (fst (a, b)))\<^sup>2 + (int j - int (snd (a, b)))\<^sup>2" by simp
  qed
qed

lemma resolve_points_cells:
  assumes "is_matrix R C cm" "is_matrix R C wm"
    and "\<forall>p\<in>set ps. fst p < R \<and> snd p < C"
    and "where_cells (\<lambda>x. x = COLD_FRONT_INTEGER_ID) m \<noteq> [] \<or> ps = []"
    and "where_cells (\<lambda>x. x = WARM_FRONT_INTEGER_ID) m \<noteq> [] \<or> ps = []"
  shows "\<exists>cm' wm'.
     resolve_points (numpy_where (\<lambda>x. x = COLD_FRONT_INTEGER_ID) m)
       (numpy_where (\<lambda>x. x = WARM_FRONT_INTEGER_ID) m) ps (cm, wm) = Inr (cm', wm') \<and>
     is_matrix R C cm' \<and> is_matrix R C wm' \<and>
     (\<forall>a<R. \<forall>b<C.
        cm' ! a ! b = (if (a, b) \<in> set ps \<and>
             \<not> front_distance COLD_FRONT_INTEGER_ID m a b \<le> front_distance WARM_FRONT_INTEGER_ID m a b
           then 0 else cm ! a ! b) \<and>
        wm' ! a ! b = (if (a, b) \<in> set ps \<and>
             front_distance COLD_FRONT_INTEGER_ID m a b \<le> front_distance WARM_FRONT_INTEGER_ID m a b
           then 0 else wm ! a ! b))"
  using assms
proof (induction ps arbitrary: cm wm)
  case Nil
  then show ?case by simp
next
  case (Cons p ps)
  obtain r c where p: "p = (r, c)" by (cases p)
  let ?dc = "front_distance COLD_FRONT_INTEGER_ID m"
  let ?dw = "front_distance WARM_FRONT_INTEGER_ID m"
  have rc: "r < R" "c < C" using Cons.prems(3) by (simp_all add: p)
  have ne: "where_cells (\<lambda>x. x = COLD_FRONT_INTEGER_ID) m \<noteq> []"
    "where_cells (\<lambda>x. x = WARM_FRONT_INTEGER_ID) m \<noteq> []"
    using Cons.prems(4,5) by simp_all
  have dc: "min_squared_distance (int r) (int c) (numpy_where (\<lambda>x. x = COLD_FRONT_INTEGER_ID) m) = Inr (?dc r c)"
    using ne(1) by (rule min_squared_distance_where)
  have dw: "min_squared_distance (int r) (int c) (numpy_where (\<lambda>x. x = WARM_FRONT_INTEGER_ID) m) = Inr (?dw r c)"
    using ne(2) by (rule min_squared_distance_where)
  define cm1 where "cm1 = (if ?dc r c \<le> ?dw r c then cm else set_cell cm r c NO_FRONT_INTEGER_ID)"
  define wm1 where "wm1 = (if ?dc r c \<le> ?dw r c then set_cell wm r c NO_FRONT_INTEGER_ID else wm)"
  have step: "resolve_points (numpy_where (\<lambda>x. x = COLD_FRONT_INTEGER_ID) m)
       (numpy_where (\<lambda>x. x = WARM_FRONT_INTEGER_ID) m) (p # ps) (cm, wm) =
     resolve_points (numpy_where (\<lambda>x. x = COLD_FRONT_INTEGER_ID) m)
       (numpy_where (\<lambda>x. x = WARM_FRONT_INTEGER_ID) m) ps (cm1, wm1)"
    by (simp add: p dc dw cm1_def wm1_def)
  have m1: "is_matrix R C cm1" "is_matrix R C wm1"
    using Cons.prems(1,2) by (simp_all add: cm1_def wm1_def is_matrix_set_cell)
  have cell1: "cm1 ! a ! b = (if (a, b) = p \<and> \<not> ?dc a b \<le> ?dw a b then 0 else cm ! a ! b)"
    "wm1 ! a ! b = (if (a, b) = p \<and> ?dc a b \<le> ?dw a b then 0 else wm ! a ! b)"
    if "a < R" "b < C" for a b
    using nth_set_cell [OF Cons.prems(1) rc that, of NO_FRONT_INTEGER_ID]
      nth_set_cell [OF Cons.prems(2) rc that, of NO_FRONT_INTEGER_ID]
    by (auto simp add: cm1_def wm1_def p NO_FRONT_INTEGER_ID_def)
  have rest: "\<forall>p\<in>set ps. fst p < R \<and> snd p < C" using Cons.prems(3) by simp
  from Cons.IH [OF m1 rest] ne obtain cm' wm' where
    r: "resolve_points (numpy_where (\<lambda>x. x = COLD_FRONT_INTEGER_ID) m)
       (numpy_where (\<lambda>x. x = WARM_FRONT_INTEGER_ID) m) ps (cm1, wm1) = Inr (cm', wm')"
    "is_matrix R C cm'" "is_matrix R C wm'"
    and cells: "\<forall>a<R. \<forall>b<C.
        cm' ! a ! b = (if (a, b) \<in> set ps \<and> \<not> ?dc a b \<le> ?dw a b then 0 else cm1 ! a ! b) \<and>
        wm' ! a ! b = (if (a, b) \<in> set ps \<and> ?dc a b \<le> ?dw a b then 0 else wm1 ! a ! b)"
    by blast
  have "\<forall>a<R. \<forall>b<C.
        cm' ! a ! b = (if (a, b) \<in> set (p # ps) \<and> \<not> ?dc a b \<le> ?dw a b then 0 else cm ! a ! b) \<and>
        wm' ! a ! b = (if (a, b) \<in> set (p # ps) \<and> ?dc a b \<le> ?dw a b then 0 else wm ! a ! b)"
  proof (intro allI impI)
    fix a b assume ab: "a < R" "b < C"
    show "cm' ! a ! b = (if (a, b) \<in> set (p # ps) \<and> \<not> ?dc a b \<le> ?dw a b then 0 else cm ! a ! b) \<and>
        wm' ! a ! b = (if (a, b) \<in> set (p # ps) \<and> ?dc a b \<le> ?dw a b then 0 else wm ! a ! b)"
      using cells ab cell1 [OF ab] by auto
  qed
  with step r show ?case by auto
qed

lemma is_matrix_assign_where:
  "is_matrix R C m \<Longrightarrow> is_matrix R C other \<Longrightarrow> is_matrix R C (assign_where m P other v)"
  by (auto simp add: assign_where_def is_matrix_def list_all_length)

lemma nth_assign_where:
  "is_matrix R C m \<Longrightarrow> is_matrix R C other \<Longrightarrow> a < R \<Longrightarrow> b < C \<Longrightarrow>
   assign_where m P other v ! a ! b = (if P (other ! a ! b) then v else m ! a ! b)"
  by (simp add: assign_where_def is_matrix_def list_all_length)

lemma set_both_fronts_cells:
  assumes "is_matrix R C cm" "is_matrix R C wm"
  shows "set (both_fronts_cells cm wm) =
    {(i, j). i < R \<and> j < C \<and> cm ! i ! j = 1 \<and> wm ! i ! j = 1}"
  using assms unfolding both_fronts_cells_def set_where_cells
  by (auto simp add: is_matrix_def list_all_length ANY_FRONT_INTEGER_ID_def)


lemma dilate_binary_Inr:
  assumes "dilate_binary_narr_image sp b d k = Inr out"
  shows "\<exists>K. out = cv2_dilate b K \<and>
     (k = Some K \<or> (\<exists>distance bmask. k = None \<and> d = Some distance \<and>
         buffer_distance_to_narr_mask sp distance = Inr bmask \<and> K = astype_int bmask))"
  using assms unfolding dilate_binary_narr_image_def
  by (auto split: if_splits option.splits sum.splits)

lemma dilated_front_nonempty:
  assumes "is_matrix R C m" "i < R" "j < C" "cv2_dilate (binary_front_matrix t m) K ! i ! j = 1"
  shows "where_cells (\<lambda>x. x = t) m \<noteq> []"
proof -
  from assms(4) obtain p where p: "0 \<le> int i + fst p" "int i + fst p < int R"
    "0 \<le> int j + snd p" "int j + snd p < int C"
    "m ! nat (int i + fst p) ! nat (int j + snd p) = t"
    unfolding dilated_front_cell [OF assms(1-3)] by (auto split: if_splits)
  let ?a = "nat (int i + fst p)" and ?b = "nat (int j + snd p)"
  have "?a < R" "?b < C" using p by simp_all
  then have "(?a, ?b) \<in> set (where_cells (\<lambda>x. x = t) m)"
    using p(5) assms(1) by (simp add: set_where_cells is_matrix_def list_all_length)
  then show ?thesis by auto
qed

lemma dilated_front_keeps:
  assumes "is_matrix R C m" "i < R" "j < C" "covers_anchor K" "m ! i ! j = t"
  shows "cv2_dilate (binary_front_matrix t m) K ! i ! j = 1"
  unfolding dilated_front_cell [OF assms(1-3)]
  using assms(2-5) by (auto simp add: covers_anchor_def intro!: bexI [of _ "(0, 0)"])

lemma dilated_front_binary:
  assumes "is_matrix R C m" "i < R" "j < C"
  shows "cv2_dilate (binary_front_matrix t m) K ! i ! j = 0 \<or>
         cv2_dilate (binary_front_matrix t m) K ! i ! j = 1"
  unfolding dilated_front_cell [OF assms] by simp

lemma dilate_ternary_cells:
  assumes m: "is_matrix R C m"
    and valid: "all_cells (\<lambda>x. 0 \<le> x) m" "all_cells (\<lambda>x. x \<le> 2) m"
    and cd: "dilate_binary_narr_image sp (binary_front_matrix COLD_FRONT_INTEGER_ID m) d k = Inr cd"
    and wd: "dilate_binary_narr_image sp (binary_front_matrix WARM_FRONT_INTEGER_ID m) d k = Inr wd"
  shows "\<exists>out. dilate_ternary_narr_image sp m d k = Inr out \<and> is_matrix R C out \<and>
    (\<forall>a<R. \<forall>b<C. out ! a ! b =
       (if wd ! a ! b = 1 \<and>
           \<not> (cd ! a ! b = 1 \<and> front_distance COLD_FRONT_INTEGER_ID m a b
                                   \<le> front_distance WARM_FRONT_INTEGER_ID m a b)
        then 1
        else if cd ! a ! b = 1 \<and>
           \<not> (wd ! a ! b = 1 \<and> \<not> front_distance COLD_FRONT_INTEGER_ID m a b
                                   \<le> front_distance WARM_FRONT_INTEGER_ID m a b)
        then 2 else m ! a ! b))"
proof -
  let ?dc = "front_distance COLD_FRONT_INTEGER_ID m"
  let ?dw = "front_distance WARM_FRONT_INTEGER_ID m"
  from dilate_binary_Inr [OF cd] obtain Kc where
    Kc: "cd = cv2_dilate (binary_front_matrix COLD_FRONT_INTEGER_ID m) Kc" by blast
  from dilate_binary_Inr [OF wd] obtain Kw where
    Kw: "wd = cv2_dilate (binary_front_matrix WARM_FRONT_INTEGER_ID m) Kw" by blast
  have mc: "is_matrix R C cd" unfolding Kc
    by (intro is_matrix_cv2_dilate is_matrix_binary_front_matrix m)
  have mw: "is_matrix R C wd" unfolding Kw
    by (intro is_matrix_cv2_dilate is_matrix_binary_front_matrix m)
  let ?ps = "both_fronts_cells cd wd"
  have ps: "set ?ps = {(i, j). i < R \<and> j < C \<and> cd ! i ! j = 1 \<and> wd ! i ! j = 1}"
    using mc mw by (rule set_both_fronts_cells)
  have inr: "\<forall>p\<in>set ?ps. fst p < R \<and> snd p < C" unfolding ps by auto
  have nec: "where_cells (\<lambda>x. x = COLD_FRONT_INTEGER_ID) m \<noteq> [] \<or> ?ps = []"
  proof (cases "?ps")
    case (Cons p rest)
    then have "p \<in> set ?ps" by simp
    then have "fst p < R" "snd p < C" "cd ! fst p ! snd p = 1" unfolding ps by auto
    then show ?thesis using dilated_front_nonempty [OF m, of "fst p" "snd p"] Kc by auto
  qed simp
  have new: "where_cells (\<lambda>x. x = WARM_FRONT_INTEGER_ID) m \<noteq> [] \<or> ?ps = []"
  proof (cases "?ps")
    case (Cons p rest)
    then have "p \<in> set ?ps" by simp
    then have "fst p < R" "snd p < C" "wd ! fst p ! snd p = 1" unfolding ps by auto
    then show ?thesis using dilated_front_nonempty [OF m, of "fst p" "snd p"] Kw by auto
  qed simp
  from resolve_points_cells [OF mc mw inr nec new] obtain cm' wm' where
    res: "resolve_points (numpy_where (\<lambda>x. x = COLD_FRONT_INTEGER_ID) m)
       (numpy_where (\<lambda>x. x = WARM_FRONT_INTEGER_ID) m) ?ps (cd, wd) = Inr (cm', wm')"
    and mc': "is_matrix R C cm'" and mw': "is_matrix R C wm'"
    and cells: "\<forall>a<R. \<forall>b<C.
        cm' ! a ! b = (if (a, b) \<in> set ?ps \<and> \<not> ?dc a b \<le> ?dw a b then 0 else cd ! a ! b) \<and>
        wm' ! a ! b = (if (a, b) \<in> set ?ps \<and> ?dc a b \<le> ?dw a b then 0 else wd ! a ! b)"
    by blast
  define out where "out = assign_where
      (assign_where m (\<lambda>x. x = ANY_FRONT_INTEGER_ID) cm' COLD_FRONT_INTEGER_ID)
      (\<lambda>x. x = ANY_FRONT_INTEGER_ID) wm' WARM_FRONT_INTEGER_ID"
  have run: "dilate_ternary_narr_image sp m d k = Inr out"
    using valid cd wd res by (simp add: dilate_ternary_narr_image_def out_def)
  have m1: "is_matrix R C (assign_where m (\<lambda>x. x = ANY_FRONT_INTEGER_ID) cm' COLD_FRONT_INTEGER_ID)"
    using m mc' by (rule is_matrix_assign_where)
  have mo: "is_matrix R C out" unfolding out_def using m1 mw' by (rule is_matrix_assign_where)
  have "out ! a ! b =
       (if wd ! a ! b = 1 \<and> \<not> (cd ! a ! b = 1 \<and> ?dc a b \<le> ?dw a b) then 1
        else if cd ! a ! b = 1 \<and> \<not> (wd ! a ! b = 1 \<and> \<not> ?dc a b \<le> ?dw a b) then 2
        else m ! a ! b)" if ab: "a < R" "b < C" for a b
  proof -
    have o: "out ! a ! b = (if wm' ! a ! b = 1 then 1 else if cm' ! a ! b = 1 then 2 else m ! a ! b)"
      unfolding out_def nth_assign_where [OF m1 mw' ab] nth_assign_where [OF m mc' ab]
      by (simp add: ANY_FRONT_INTEGER_ID_def WARM_FRONT_INTEGER_ID_def COLD_FRONT_INTEGER_ID_def)
    have mem: "(a, b) \<in> set ?ps \<longleftrightarrow> cd ! a ! b = 1 \<and> wd ! a ! b = 1"
      unfolding ps using ab by simp
    have c: "cm' ! a ! b = (if (cd ! a ! b = 1 \<and> wd ! a ! b = 1) \<and> \<not> ?dc a b \<le> ?dw a b then 0 else cd ! a ! b)"
      and w: "wm' ! a ! b = (if (cd ! a ! b = 1 \<and> wd ! a ! b = 1) \<and> ?dc a b \<le> ?dw a b then 0 else wd ! a ! b)"
      using cells [rule_format, OF ab] by (simp_all add: mem)
    show ?thesis unfolding o c w by auto
  qed
  with run mo show ?thesis by blast
qed


lemma buffer_mask_covers_anchor:
  assumes "buffer_distance_to_narr_mask sp bd = Inr bmask"
  shows "covers_anchor (astype_int bmask)"
proof -
  define d' where "d' = max bd 1"
  define k where "k = \<lfloor>d' / sp\<rfloor>"
  define offs where "offs = [- k..k]"
  define test where "test = (\<lambda>r c. sp * sqrt ((real_of_int r)\<^sup>2 + (real_of_int c)\<^sup>2) \<le> d')"
  from assms have k0: "0 \<le> k" and bmask: "bmask = map (\<lambda>r. map (\<lambda>c. test r c) offs) offs"
    unfolding buffer_distance_to_narr_mask_def Let_def d'_def k_def offs_def test_def
    by (auto split: if_splits)
  let ?n = "nat k"
  have len: "length offs = 2 * ?n + 1" using k0 by (simp add: offs_def)
  have mid: "offs ! ?n = 0" using k0 by (simp add: offs_def)
  let ?K = "astype_int bmask"
  have lenK: "length ?K = 2 * ?n + 1" by (simp add: astype_int_def bmask len)
  have nr: "num_rows ?K div 2 = ?n" by (simp add: num_rows_def lenK)
  have rowK: "length (?K ! i) = 2 * ?n + 1" if "i < 2 * ?n + 1" for i
    using that by (simp add: astype_int_def bmask len)
  have "?K \<noteq> []" using lenK by auto
  then have "num_columns ?K = length (?K ! 0)"
    by (cases ?K) (simp_all add: num_columns_def)
  then have nc: "num_columns ?K div 2 = ?n" using rowK [of 0] by simp
  have "test 0 0" by (simp add: test_def d'_def)
  then have "?K ! ?n ! ?n = 1"
    using mid by (simp add: astype_int_def bmask len)
  then have "(?n, ?n) \<in> set (where_cells (\<lambda>x. x \<noteq> 0) ?K)"
    using lenK rowK [of ?n] by (simp add: set_where_cells)
  then have "(int ?n - int (num_rows ?K div 2), int ?n - int (num_columns ?K div 2))
      \<in> set (kernel_cells ?K)"
    unfolding kernel_cells_def set_map by (rule rev_image_eqI) simp
  then show ?thesis by (simp add: covers_anchor_def nr nc)
qed

text \<open>
  Claim C2 (ties go to the cold front). Let the ternary matrix be rectangular with values
  0, 1, 2, and let both per-type dilations succeed. At a cell that both dilated matrices
  cover, if the least squared index distance to the cold-front cells of the input equals
  the least squared index distance to its warm-front cells, then
  \<open>dilate_ternary_narr_image\<close> returns and labels the cell cold front. (A contested cell
  exists only when the input holds a warm-front and a cold-front cell, so that is not a
  separate hypothesis.)
\<close>

theorem dilate_ternary_tie_is_cold:
  assumes m: "is_matrix R C m"
    and valid: "all_cells (\<lambda>x. 0 \<le> x) m" "all_cells (\<lambda>x. x \<le> 2) m"
    and cd: "dilate_binary_narr_image sp (binary_front_matrix COLD_FRONT_INTEGER_ID m) d k = Inr cd"
    and wd: "dilate_binary_narr_image sp (binary_front_matrix WARM_FRONT_INTEGER_ID m) d k = Inr wd"
    and ij: "i < R" "j < C"
    and contested: "cd ! i ! j = ANY_FRONT_INTEGER_ID" "wd ! i ! j = ANY_FRONT_INTEGER_ID"
    and tie: "min_squared_distance (int i) (int j) (numpy_where (\<lambda>x. x = COLD_FRONT_INTEGER_ID) m) =
              min_squared_distance (int i) (int j) (numpy_where (\<lambda>x. x = WARM_FRONT_INTEGER_ID) m)"
  shows "\<exists>out. dilate_ternary_narr_image sp m d k = Inr out \<and>
               out ! i ! j = COLD_FRONT_INTEGER_ID"
proof -
  from dilate_binary_Inr [OF cd] obtain Kc where
    Kc: "cd = cv2_dilate (binary_front_matrix COLD_FRONT_INTEGER_ID m) Kc" by blast
  from dilate_binary_Inr [OF wd] obtain Kw where
    Kw: "wd = cv2_dilate (binary_front_matrix WARM_FRONT_INTEGER_ID m) Kw" by blast
  have c1: "cd ! i ! j = 1" and w1: "wd ! i ! j = 1"
    using contested by (simp_all add: ANY_FRONT_INTEGER_ID_def)
  have nec: "where_cells (\<lambda>x. x = COLD_FRONT_INTEGER_ID) m \<noteq> []"
    using dilated_front_nonempty [OF m ij] c1 Kc by simp
  have new: "where_cells (\<lambda>x. x = WARM_FRONT_INTEGER_ID) m \<noteq> []"
    using dilated_front_nonempty [OF m ij] w1 Kw by simp
  have eq: "front_distance COLD_FRONT_INTEGER_ID m i j = front_distance WARM_FRONT_INTEGER_ID m i j"
    using tie unfolding min_squared_distance_where [OF nec] min_squared_distance_where [OF new]
    by simp
  from dilate_ternary_cells [OF m valid cd wd] obtain out where
    run: "dilate_ternary_narr_image sp m d k = Inr out"
    and cells: "\<forall>a<R. \<forall>b<C. out ! a ! b =
       (if wd ! a ! b = 1 \<and>
           \<not> (cd ! a ! b = 1 \<and> front_distance COLD_FRONT_INTEGER_ID m a b
                                   \<le> front_distance WARM_FRONT_INTEGER_ID m a b)
        then 1
        else if cd ! a ! b = 1 \<and>
           \<not> (wd ! a ! b = 1 \<and> \<not> front_distance COLD_FRONT_INTEGER_ID m a b
                                   \<le> front_distance WARM_FRONT_INTEGER_ID m a b)
        then 2 else m ! a ! b)"
    by blast
  have "out ! i ! j = 2"
    using cells [rule_format, OF ij] c1 w1 eq by simp
  with run show ?thesis by (simp add: COLD_FRONT_INTEGER_ID_def)
qed

text \<open>
  Claim C10, amended (dilation keeps the original front cells when the kernel covers its
  anchor). Let the ternary matrix be rectangular with values 0, 1, 2, let both per-type
  dilations succeed, and let the kernel, when one is passed explicitly, be nonzero at its
  anchor cell; a kernel built from a dilation distance always is. Then
  \<open>dilate_ternary_narr_image\<close> returns, every warm-front cell of the input is a warm-front
  cell of the output and every cold-front cell of the input is a cold-front cell of the
  output.
\<close>

theorem dilate_ternary_keeps_fronts:
  assumes m: "is_matrix R C m"
    and valid: "all_cells (\<lambda>x. 0 \<le> x) m" "all_cells (\<lambda>x. x \<le> 2) m"
    and cd: "dilate_binary_narr_image sp (binary_front_matrix COLD_FRONT_INTEGER_ID m) d k = Inr cd"
    and wd: "dilate_binary_narr_image sp (binary_front_matrix WARM_FRONT_INTEGER_ID m) d k = Inr wd"
    and anchor: "\<forall>K. k = Some K \<longrightarrow> covers_anchor K"
    and ij: "i < R" "j < C"
  shows "\<exists>out. dilate_ternary_narr_image sp m d k = Inr out \<and>
     (m ! i ! j = WARM_FRONT_INTEGER_ID \<longrightarrow> out ! i ! j = WARM_FRONT_INTEGER_ID) \<and>
     (m ! i ! j = COLD_FRONT_INTEGER_ID \<longrightarrow> out ! i ! j = COLD_FRONT_INTEGER_ID)"
proof -
  let ?dc = "front_distance COLD_FRONT_INTEGER_ID m"
  let ?dw = "front_distance WARM_FRONT_INTEGER_ID m"
  from dilate_binary_Inr [OF cd] obtain Kc where
    Kc: "cd = cv2_dilate (binary_front_matrix COLD_FRONT_INTEGER_ID m) Kc" and ac: "covers_anchor Kc"
    using anchor buffer_mask_covers_anchor by blast
  from dilate_binary_Inr [OF wd] obtain Kw where
    Kw: "wd = cv2_dilate (binary_front_matrix WARM_FRONT_INTEGER_ID m) Kw" and aw: "covers_anchor Kw"
    using anchor buffer_mask_covers_anchor by blast
  have len: "i < length m" "j < length (m ! i)"
    using m ij by (simp_all add: is_matrix_def list_all_length)
  from dilate_ternary_cells [OF m valid cd wd] obtain out where
    run: "dilate_ternary_narr_image sp m d k = Inr out"
    and cells: "\<forall>a<R. \<forall>b<C. out ! a ! b =
       (if wd ! a ! b = 1 \<and> \<not> (cd ! a ! b = 1 \<and> ?dc a b \<le> ?dw a b) then 1
        else if cd ! a ! b = 1 \<and> \<not> (wd ! a ! b = 1 \<and> \<not> ?dc a b \<le> ?dw a b) then 2
        else m ! a ! b)"
    by blast
  note cell = cells [rule_format, OF ij]
  have warm: "out ! i ! j = 1" if w: "m ! i ! j = WARM_FRONT_INTEGER_ID"
  proof -
    have w1: "wd ! i ! j = 1" unfolding Kw using m ij aw w by (rule dilated_front_keeps)
    have dw0: "?dw i j = 0" using len w by (rule front_distance_own)
    show ?thesis
    proof (cases "cd ! i ! j = 1")
      case True
      then have nec: "where_cells (\<lambda>x. x = COLD_FRONT_INTEGER_ID) m \<noteq> []"
        using dilated_front_nonempty [OF m ij] Kc by simp
      have "m ! i ! j \<noteq> COLD_FRONT_INTEGER_ID"
        using w by (simp add: WARM_FRONT_INTEGER_ID_def COLD_FRONT_INTEGER_ID_def)
      with nec have "1 \<le> ?dc i j" by (rule front_distance_other)
      then show ?thesis using cell w1 dw0 by simp
    next
      case False
      then show ?thesis using cell w1 by simp
    qed
  qed
  have cold: "out ! i ! j = 2" if c: "m ! i ! j = COLD_FRONT_INTEGER_ID"
  proof -
    have c1: "cd ! i ! j = 1" unfolding Kc using m ij ac c by (rule dilated_front_keeps)
    have dc0: "?dc i j = 0" using len c by (rule front_distance_own)
    show ?thesis
    proof (cases "wd ! i ! j = 1")
      case True
      then have new: "where_cells (\<lambda>x. x = WARM_FRONT_INTEGER_ID) m \<noteq> []"
        using dilated_front_nonempty [OF m ij] Kw by simp
      have "0 \<le> ?dw i j" using new by (rule front_distance_ge0)
      then show ?thesis using cell c1 dc0 True by simp
    next
      case False
      then show ?thesis using cell c1 by simp
    qed
  qed
  from run warm cold show ?thesis
    by (simp add: WARM_FRONT_INTEGER_ID_def COLD_FRONT_INTEGER_ID_def)
qed


theorem dilate_ternary_tie_is_cold_witness:
  "is_matrix 1 3 [[1, 0, 2 :: int]] \<and>
   dilate_binary_narr_image 1 (binary_front_matrix COLD_FRONT_INTEGER_ID [[1, 0, 2]])
     None (Some [[1, 1, 1]]) = Inr [[0, 1, 1]] \<and>
   dilate_binary_narr_image 1 (binary_front_matrix WARM_FRONT_INTEGER_ID [[1, 0, 2]])
     None (Some [[1, 1, 1]]) = Inr [[1, 1, 0]] \<and>
   min_squared_distance 0 1 (numpy_where (\<lambda>x. x = COLD_FRONT_INTEGER_ID) [[1, 0, 2]]) = Inr 1 \<and>
   min_squared_distance 0 1 (numpy_where (\<lambda>x. x = WARM_FRONT_INTEGER_ID) [[1, 0, 2]]) = Inr 1 \<and>
   (\<exists>out. dilate_ternary_narr_image 1 [[1, 0, 2]] None (Some [[1, 1, 1]]) = Inr out \<and>
          out ! 0 ! 1 = COLD_FRONT_INTEGER_ID)"
proof -
  have m: "is_matrix 1 3 [[1, 0, 2 :: int]]" by code_simp
  have v: "all_cells (\<lambda>x. 0 \<le> x) [[1, 0, 2 :: int]]" "all_cells (\<lambda>x. x \<le> 2) [[1, 0, 2 :: int]]"
    by code_simp+
  have cd: "dilate_binary_narr_image 1 (binary_front_matrix COLD_FRONT_INTEGER_ID [[1, 0, 2]])
     None (Some [[1, 1, 1]]) = Inr [[0, 1, 1]]" by code_simp
  have wd: "dilate_binary_narr_image 1 (binary_front_matrix WARM_FRONT_INTEGER_ID [[1, 0, 2]])
     None (Some [[1, 1, 1]]) = Inr [[1, 1, 0]]" by code_simp
  have dc: "min_squared_distance 0 1 (numpy_where (\<lambda>x. x = COLD_FRONT_INTEGER_ID) [[1, 0, 2]]) = Inr 1"
    by code_simp
  have dw: "min_squared_distance 0 1 (numpy_where (\<lambda>x. x = WARM_FRONT_INTEGER_ID) [[1, 0, 2]]) = Inr 1"
    by code_simp
  have "\<exists>out. dilate_ternary_narr_image 1 [[1, 0, 2]] None (Some [[1, 1, 1]]) = Inr out \<and>
          out ! 0 ! 1 = COLD_FRONT_INTEGER_ID"
    using dilate_ternary_tie_is_cold [OF m v cd wd, of 0 1] dc dw
    by (simp add: ANY_FRONT_INTEGER_ID_def)
  with m cd wd dc dw show ?thesis by blast
qed

theorem dilate_ternary_keeps_fronts_witness:
  "is_matrix 2 3 [[1, 0, 2], [0, 0, 0 :: int]] \<and>
   dilate_binary_narr_image 32463 (binary_front_matrix COLD_FRONT_INTEGER_ID [[1, 0, 2], [0, 0, 0]])
     (Some 32463) None = Inr [[0, 1, 1], [0, 0, 1]] \<and>
   dilate_binary_narr_image 32463 (binary_front_matrix WARM_FRONT_INTEGER_ID [[1, 0, 2], [0, 0, 0]])
     (Some 32463) None = Inr [[1, 1, 0], [1, 0, 0]] \<and>
   (\<exists>out. dilate_ternary_narr_image 32463 [[1, 0, 2], [0, 0, 0]] (Some 32463) None = Inr out \<and>
          out ! 0 ! 0 = WARM_FRONT_INTEGER_ID \<and> out ! 0 ! 2 = COLD_FRONT_INTEGER_ID)"
proof -
  let ?m = "[[1, 0, 2], [0, 0, 0 :: int]]"
  have m: "is_matrix 2 3 ?m" by code_simp
  have v: "all_cells (\<lambda>x. 0 \<le> x) ?m" "all_cells (\<lambda>x. x \<le> 2) ?m"
    by code_simp+
  have cd: "dilate_binary_narr_image 32463 (binary_front_matrix COLD_FRONT_INTEGER_ID ?m)
     (Some 32463) None = Inr [[0, 1, 1], [0, 0, 1]]" by code_simp
  have wd: "dilate_binary_narr_image 32463 (binary_front_matrix WARM_FRONT_INTEGER_ID ?m)
     (Some 32463) None = Inr [[1, 1, 0], [1, 0, 0]]" by code_simp
  have a: "\<forall>K. (None :: int matrix option) = Some K \<longrightarrow> covers_anchor K" by simp
  have w: "?m ! 0 ! 0 = WARM_FRONT_INTEGER_ID" and c: "?m ! 0 ! 2 = COLD_FRONT_INTEGER_ID"
    by (simp_all add: WARM_FRONT_INTEGER_ID_def COLD_FRONT_INTEGER_ID_def)
  have "\<exists>out. dilate_ternary_narr_image 32463 ?m (Some 32463) None = Inr out \<and>
          out ! 0 ! 0 = WARM_FRONT_INTEGER_ID \<and> out ! 0 ! 2 = COLD_FRONT_INTEGER_ID"
    using dilate_ternary_keeps_fronts [OF m v cd wd a, of 0 0]
      dilate_ternary_keeps_fronts [OF m v cd wd a, of 0 2] w c
    by auto
  with m cd wd show ?thesis by blast
qed

text \<open>
  The claim as first stated, for every kernel that the function accepts, fails: the
  kernel \<open>[[1, 0, 0]]\<close> has its only nonzero cell beside the anchor, the two dilated
  matrices are shifted copies that never overlap, and the shifted warm mask overwrites the
  cold-front cell \<open>(0, 1)\<close> of the input.
\<close>

theorem dilate_ternary_retypes_front_counterexample:
  "[[1, 2, 0]] ! 0 ! 1 = COLD_FRONT_INTEGER_ID \<and>
   dilate_ternary_narr_image 1 [[1, 2, 0]] None (Some [[1, 0, 0]]) = Inr [[1, 1, 2]] \<and>
   [[1, 1, 2]] ! 0 ! 1 = WARM_FRONT_INTEGER_ID"
  by code_simp

section \<open>Properties of the conversion from polylines\<close>

lemma numpy_min_Inl: "numpy_min xs = Inl e \<longleftrightarrow> xs = [] \<and> e = ValueError"
  by (cases xs) (auto simp add: numpy_min_def)

lemma numpy_max_nonempty:
  assumes "xs \<noteq> []"
  shows "numpy_max xs = Inr (Max (set xs))"
proof (cases xs)
  case Nil
  then show ?thesis using assms by simp
next
  case (Cons a rest)
  then show ?thesis using Max.set_eq_fold [of a rest] by (simp add: numpy_max_def)
qed

text \<open>
  Claim C3 (a polyline outside the grid). The claim says that \<open>_polyline_to_grid_points\<close>
  returns the empty pair of index arrays. The code does not: when no grid coordinate
  lies in the polyline's extent widened by one grid spacing, along \<open>x\<close> or along \<open>y\<close>, the
  array of in-range indices is empty and \<open>numpy.min\<close> of it raises. For every valid
  polyline and every grid with two points or more along each axis, the function then
  ends in \<open>ValueError\<close>.
\<close>

theorem polyline_outside_grid_raises:
  assumes line: "polyline_from_vertex_arrays_to_linestring geom px py = Inr line"
    and grid: "2 \<le> length gx" "2 \<le> length gy"
    and ne: "px \<noteq> []" "py \<noteq> []"
    and outside:
      "(\<forall>x\<in>set gx. x < Min (set px) - (gx ! 1 - gx ! 0) \<or> Max (set px) + (gx ! 1 - gx ! 0) < x) \<or>
       (\<forall>y\<in>set gy. y < Min (set py) - (gy ! 1 - gy ! 0) \<or> Max (set py) + (gy ! 1 - gy ! 0) < y)"
  shows "polyline_to_grid_points geom px py gx gy = Inl ValueError"
proof -
  let ?xs = "in_range_indices gx (Min (set px) - (gx ! 1 - gx ! 0)) (Max (set px) + (gx ! 1 - gx ! 0))"
  let ?ys = "in_range_indices gy (Min (set py) - (gy ! 1 - gy ! 0)) (Max (set py) + (gy ! 1 - gy ! 0))"
  have empty: "?xs = [] \<or> ?ys = []"
    using outside unfolding in_range_indices_def filter_empty_conv
    by (auto simp add: not_le dest: nth_mem)
  have "numpy_min ?ys = Inl ValueError \<or>
        (\<exists>r. numpy_min ?ys = Inr r \<and> numpy_min ?xs = Inl ValueError)"
  proof (cases "?ys = []")
    case True
    then show ?thesis by (simp add: numpy_min_def)
  next
    case False
    then have "?xs = []" using empty by simp
    then show ?thesis using False by (simp add: numpy_min_nonempty) (simp add: numpy_min_def)
  qed
  then show ?thesis
    unfolding polyline_to_grid_points_def
    using line grid ne
    by (auto simp add: numpy_min_nonempty numpy_max_nonempty Let_def)
qed

theorem polyline_outside_grid_raises_witness:
  "polyline_to_grid_points example_geometry [200000, 200100] [32463, 32500]
     [0, 32463, 64926] [0, 32463, 64926] = Inl ValueError"
proof -
  have "polyline_from_vertex_arrays_to_linestring example_geometry [200000, 200100] [32463, 32500]
      = Inr [(200000, 32463), (200100, 32500)]"
    by code_simp
  from polyline_outside_grid_raises [OF this, of "[0, 32463, 64926]" "[0, 32463, 64926]"]
  show ?thesis by simp
qed



text \<open>
  Claim C6 (closed polylines are skipped). In the loop over the fronts of one valid time,
  a front whose first and last vertices are less than \<open>TOLERANCE_DEG\<close> apart, in latitude
  and in longitude, leaves the grid as it is, and the loop goes on with the next front:
  the loop over any list of front indices gives what it gives on the list without the
  closed fronts.
\<close>

theorem closed_polylines_are_skipped:
  "rasterize_fronts narr geom front_table d i front_indices grid =
   rasterize_fronts narr geom front_table d i
     (filter (\<lambda>j. is_polyline_closed (latitudes_deg (front_table ! j))
                      (longitudes_deg (front_table ! j)) \<noteq> Inr True) front_indices) grid"
proof (induction front_indices arbitrary: grid)
  case Nil
  show ?case by simp
next
  case (Cons j js)
  show ?case
  proof (cases "is_polyline_closed (latitudes_deg (front_table ! j)) (longitudes_deg (front_table ! j))")
    case (Inl e)
    then show ?thesis by simp
  next
    case (Inr closed)
    show ?thesis
    proof (cases closed)
      case True
      then show ?thesis using Inr Cons.IH by simp
    next
      case False
      then show ?thesis using Inr Cons.IH
        by (simp split: sum.splits)
    qed
  qed
qed



text \<open>
  Claim C4 (each front is labelled by its own type). The code tests the warm type at the
  front's index \<open>j\<close> but the cold type at the index \<open>i\<close> of the valid time. In a table
  whose first record is a warm front and whose second record is a cold front of the same
  time, the cold front covers the cell \<open>(2, 2)\<close>, and no cold-front cell is written.
\<close>

theorem cold_front_after_warm_is_dropped:
  "polyline_to_binary_narr_grid example_narr example_geometry [64926, 64900] [64926, 64926] 0 =
     Inr [[0, 0, 0], [0, 0, 0], [0, 0, 1]] \<and>
   many_polylines_to_narr_grid example_narr example_geometry
     [\<lparr>unix_time_sec = 0, front_type = ''warm'',
       latitudes_deg = [0, 100], longitudes_deg = [0, 0]\<rparr>,
      \<lparr>unix_time_sec = 0, front_type = ''cold'',
       latitudes_deg = [64926, 64900], longitudes_deg = [64926, 64926]\<rparr>] 0 =
     Inr [(0, \<lparr>warm_front_row_indices = [0], warm_front_column_indices = [0],
                cold_front_row_indices = [], cold_front_column_indices = []\<rparr>)]"
  by code_simp

theorem closed_polylines_are_skipped_witness:
  "is_polyline_closed [32463, 40000, 32463] [32463, 32463, 32463] = Inr True \<and>
   rasterize_fronts example_narr example_geometry
     [\<lparr>unix_time_sec = 0, front_type = ''warm'',
       latitudes_deg = [32463, 40000, 32463], longitudes_deg = [32463, 32463, 32463]\<rparr>,
      \<lparr>unix_time_sec = 0, front_type = ''warm'',
       latitudes_deg = [0, 100], longitudes_deg = [0, 0]\<rparr>] 0 0 [0, 1] (full 3 3 0) =
   rasterize_fronts example_narr example_geometry
     [\<lparr>unix_time_sec = 0, front_type = ''warm'',
       latitudes_deg = [32463, 40000, 32463], longitudes_deg = [32463, 32463, 32463]\<rparr>,
      \<lparr>unix_time_sec = 0, front_type = ''warm'',
       latitudes_deg = [0, 100], longitudes_deg = [0, 0]\<rparr>] 0 0 [1] (full 3 3 0)"
proof -
  have c: "is_polyline_closed [32463, 40000, 32463] [32463, 32463, 32463] = Inr True"
    by code_simp
  have o: "is_polyline_closed [0, 100] [0, 0] = Inr False"
    by code_simp
  show ?thesis
    using c o closed_polylines_are_skipped [of example_narr example_geometry
     "[\<lparr>unix_time_sec = 0, front_type = ''warm'',
       latitudes_deg = [32463, 40000, 32463], longitudes_deg = [32463, 32463, 32463]\<rparr>,
      \<lparr>unix_time_sec = 0, front_type = ''warm'',
       latitudes_deg = [0, 100], longitudes_deg = [0, 0]\<rparr>]" 0 0 "[0, 1]" "full 3 3 0"]
    by simp
qed

lemma buffer_mask_one_metre:
  assumes "1 < sp"
  shows "buffer_distance_to_narr_mask sp 1 = Inr [[True]]"
proof -
  have "\<lfloor>1 / sp\<rfloor> = 0" using assms by (simp add: floor_eq_iff)
  then show ?thesis using assms
    by (simp add: buffer_distance_to_narr_mask_def)
qed

lemma assign_cells_is_matrix:
  "is_matrix R C m \<Longrightarrow> assign_cells m ps v = Inr m' \<Longrightarrow> is_matrix R C m'"
proof (induction ps arbitrary: m)
  case Nil
  then show ?case by simp
next
  case (Cons p ps)
  obtain r c where p: "p = (r, c)" by (cases p)
  from Cons.prems(2) obtain i j where
    "assign_cells (set_cell m i j v) ps v = Inr m'"
    by (auto simp add: p split: option.splits)
  with Cons.IH [OF is_matrix_set_cell [OF Cons.prems(1)]] show ?case by blast
qed

lemma grid_points_to_binary_image_is_matrix:
  assumes "grid_points_to_binary_image rows columns R C = Inr b"
  shows "is_matrix R C b"
proof -
  from assms obtain ps where "assign_cells (full R C False) ps True = Inr b"
    unfolding grid_points_to_binary_image_def assign_points_def
    by (auto split: if_splits sum.splits)
  with is_matrix_full show ?thesis by (rule assign_cells_is_matrix)
qed

lemma cv2_dilate_single_cell:
  assumes m: "is_matrix R C X" and pos: "all_cells (\<lambda>x. 0 \<le> x) X"
  shows "cv2_dilate X [[1]] = X"
proof (cases "R = 0")
  case True
  then show ?thesis using m by (simp add: cv2_dilate_def is_matrix_def num_rows_def)
next
  case False
  then have shape: "num_rows X = R" "num_columns X = C"
    using m is_matrix_num_columns [of R C X] by (simp_all add: is_matrix_num_rows)
  have kc: "kernel_cells [[1]] = [(0, 0)]"
    by (simp add: kernel_cells_def where_cells_def num_rows_def num_columns_def)
  have cell: "fold max (covered_values X (kernel_cells [[1]]) i j) 0 = X ! i ! j"
    if "i < R" "j < C" for i j
  proof -
    have "0 \<le> X ! i ! j"
      using pos that m unfolding all_cells_length by (simp add: is_matrix_def list_all_length)
    then show ?thesis using that by (simp add: kc covered_values_def shape)
  qed
  have len: "length X = R" using m by (simp add: is_matrix_def)
  show ?thesis
    unfolding cv2_dilate_def shape
  proof (rule nth_equalityI)
    show "length (map (\<lambda>i. map (\<lambda>j. fold max (covered_values X (kernel_cells [[1]]) i j) 0) [0..<C]) [0..<R]) = length X"
      by (simp add: len)
  next
    fix i assume "i < length (map (\<lambda>i. map (\<lambda>j. fold max (covered_values X (kernel_cells [[1]]) i j) 0) [0..<C]) [0..<R])"
    then have i: "i < R" by simp
    have "map (\<lambda>j. fold max (covered_values X (kernel_cells [[1]]) i j) 0) [0..<C] = X ! i"
      by (rule nth_equalityI) (simp_all add: is_matrix_row [OF m i] cell [OF i])
    then show "map (\<lambda>i. map (\<lambda>j. fold max (covered_values X (kernel_cells [[1]]) i j) 0) [0..<C]) [0..<R] ! i = X ! i"
      using i by simp
  qed
qed

lemma dilate_binary_one_metre:
  assumes "1 < sp" "is_matrix R C b"
  shows "dilate_binary_narr_image sp (astype_int b) (Some 1) None = Inr (astype_int b)"
proof -
  have mb: "is_matrix R C (astype_int b)"
    using assms(2) by (simp add: astype_int_def is_matrix_def list_all_iff)
  have lo: "all_cells (\<lambda>x. 0 \<le> x) (astype_int b)" and hi: "all_cells (\<lambda>x. x \<le> 1) (astype_int b)"
    by (auto simp add: all_cells_def astype_int_def list_all_iff)
  have k: "buffer_distance_to_narr_mask sp 1 = Inr [[True]]"
    using assms(1) by (rule buffer_mask_one_metre)
  have "astype_int [[True]] = [[1]]" by (simp add: astype_int_def)
  then show ?thesis
    unfolding dilate_binary_narr_image_def
    using lo hi k cv2_dilate_single_cell [OF mb lo]
    by (simp add: all_cells_def matrix_sum_def)
qed


text \<open>
  Claim C5, amended (a small dilation distance becomes one metre). Let the grid spacing
  be above one metre. For a dilation distance between 0 and 1,
  \<open>polyline_to_binary_narr_grid\<close> returns the raster of the polyline as it is, without
  any dilation, or the error of the raster step: the distance is raised to one metre, not
  to one grid spacing, and the mask built from one metre is the single cell \<open>[[True]]\<close>.
  The result is the one for the distance 1. A negative distance is an error in
  \<open>polyline_to_binary_narr_grid\<close>, and a distance that is not positive is an error in
  \<open>buffer_distance_to_narr_mask\<close>.
\<close>

theorem zero_distance_is_one_metre:
  assumes "0 \<le> d" "d \<le> 1" "1 < xy_grid_spacing narr"
  shows "polyline_to_binary_narr_grid narr geom latitudes longitudes d =
           (case polyline_to_grid_points geom
                   (fst (project_latlng_to_xy narr latitudes longitudes))
                   (snd (project_latlng_to_xy narr latitudes longitudes))
                   (fst (xy_grid_points narr)) (snd (xy_grid_points narr)) of
              Inl e \<Rightarrow> Inl e
            | Inr points \<Rightarrow>
                (case grid_points_to_binary_image (fst points) (snd points)
                        (fst (grid_dimensions narr)) (snd (grid_dimensions narr)) of
                   Inl e \<Rightarrow> Inl e
                 | Inr binary_matrix \<Rightarrow> Inr (astype_int binary_matrix))) \<and>
         polyline_to_binary_narr_grid narr geom latitudes longitudes d =
           polyline_to_binary_narr_grid narr geom latitudes longitudes 1 \<and>
         buffer_distance_to_narr_mask (xy_grid_spacing narr) (max d 1) = Inr [[True]] \<and>
         (\<forall>e<0. polyline_to_binary_narr_grid narr geom latitudes longitudes e = Inl ValueError) \<and>
         (\<forall>e\<le>0. buffer_distance_to_narr_mask (xy_grid_spacing narr) e = Inl ValueError)"
proof -
  have m: "max d 1 = 1" using assms(2) by simp
  let ?points = "polyline_to_grid_points geom
                   (fst (project_latlng_to_xy narr latitudes longitudes))
                   (snd (project_latlng_to_xy narr latitudes longitudes))
                   (fst (xy_grid_points narr)) (snd (xy_grid_points narr))"
  have undilated: "polyline_to_binary_narr_grid narr geom latitudes longitudes d =
           (case ?points of
              Inl e \<Rightarrow> Inl e
            | Inr points \<Rightarrow>
                (case grid_points_to_binary_image (fst points) (snd points)
                        (fst (grid_dimensions narr)) (snd (grid_dimensions narr)) of
                   Inl e \<Rightarrow> Inl e
                 | Inr binary_matrix \<Rightarrow> Inr (astype_int binary_matrix)))"
  proof (cases ?points)
    case (Inl e)
    then show ?thesis
      using assms(1) by (simp add: polyline_to_binary_narr_grid_def m split_beta)
  next
    case (Inr points)
    show ?thesis
    proof (cases "grid_points_to_binary_image (fst points) (snd points)
                        (fst (grid_dimensions narr)) (snd (grid_dimensions narr))")
      case (Inl e)
      then show ?thesis
        using assms(1) Inr by (simp add: polyline_to_binary_narr_grid_def m split_beta)
    next
      case b: (Inr binary_matrix)
      have "dilate_binary_narr_image (xy_grid_spacing narr) (astype_int binary_matrix)
              (Some 1) None = Inr (astype_int binary_matrix)"
        using assms(3) grid_points_to_binary_image_is_matrix [OF b]
        by (rule dilate_binary_one_metre)
      then show ?thesis
        using assms(1) Inr b by (simp add: polyline_to_binary_narr_grid_def m split_beta)
    qed
  qed
  have "polyline_to_binary_narr_grid narr geom latitudes longitudes d =
           polyline_to_binary_narr_grid narr geom latitudes longitudes 1"
    using assms(1) by (simp add: polyline_to_binary_narr_grid_def m)
  moreover have "buffer_distance_to_narr_mask (xy_grid_spacing narr) (max d 1) = Inr [[True]]"
    unfolding m using assms(3) by (rule buffer_mask_one_metre)
  moreover have "\<forall>e<0. polyline_to_binary_narr_grid narr geom latitudes longitudes e = Inl ValueError"
    by (simp add: polyline_to_binary_narr_grid_def)
  moreover have "\<forall>e\<le>0. buffer_distance_to_narr_mask (xy_grid_spacing narr) e = Inl ValueError"
    by (simp add: buffer_distance_to_narr_mask_def)
  ultimately show ?thesis using undilated by blast
qed

theorem zero_distance_is_one_metre_witness:
  "(0::real) \<le> 0 \<and> (0::real) \<le> 1 \<and> 1 < xy_grid_spacing example_narr \<and>
   polyline_to_grid_points example_geometry [32463, 32463] [32463, 32500]
     [0, 32463, 64926] [0, 32463, 64926] = Inr ([1], [1]) \<and>
   polyline_to_binary_narr_grid example_narr example_geometry [32463, 32500] [32463, 32463] 0 =
     Inr [[0, 0, 0], [0, 1, 0], [0, 0, 0]]"
proof -
  have s: "1 < xy_grid_spacing example_narr" by (simp add: example_narr_def)
  have p: "polyline_to_grid_points example_geometry [32463, 32463] [32463, 32500]
     [0, 32463, 64926] [0, 32463, 64926] = Inr ([1], [1])"
    by code_simp
  have b: "grid_points_to_binary_image [1] [1] 3 3 =
      Inr [[False, False, False], [False, True, False], [False, False, False]]"
    by code_simp
  have "polyline_to_binary_narr_grid example_narr example_geometry [32463, 32500] [32463, 32463] 0 =
     Inr [[0, 0, 0], [0, 1, 0], [0, 0, 0]]"
    using zero_distance_is_one_metre [OF _ _ s, of 0 example_geometry "[32463, 32500]" "[32463, 32463]"]
    by (simp add: example_narr_def p b astype_int_def)
  with s p show ?thesis by simp
qed

text \<open>
  The distance 0 is not coerced to one grid spacing: on the example grid it gives the
  undilated cell, where the distance of one grid spacing gives the cell and its four
  neighbours.
\<close>

theorem zero_distance_is_not_one_spacing_counterexample:
  "polyline_to_binary_narr_grid example_narr example_geometry [32463, 32500] [32463, 32463] 0 =
     Inr [[0, 0, 0], [0, 1, 0], [0, 0, 0]] \<and>
   polyline_to_binary_narr_grid example_narr example_geometry [32463, 32500] [32463, 32463]
       (xy_grid_spacing example_narr) =
     Inr [[0, 1, 0], [1, 1, 1], [0, 1, 0]] \<and>
   buffer_distance_to_narr_mask (xy_grid_spacing example_narr) (max 0 1) = Inr [[True]] \<and>
   buffer_distance_to_narr_mask (xy_grid_spacing example_narr) (xy_grid_spacing example_narr) =
     Inr [[False, True, False], [True, True, True], [False, True, False]]"
  by code_simp

section \<open>Properties of the binary closing\<close>



lemma num_rows_tabulate: "num_rows (tabulate R C f) = R"
  by (simp add: tabulate_def num_rows_def)

lemma num_columns_tabulate: "num_columns (tabulate R C f) = (if R = 0 then 0 else C)"
proof (cases R)
  case 0
  then show ?thesis by (simp add: tabulate_def num_columns_def)
next
  case (Suc n)
  have "[0..<Suc n] = 0 # [Suc 0..<Suc n]" by (rule upt_conv_Cons) simp
  then show ?thesis using Suc by (simp add: tabulate_def num_columns_def del: upt_Suc)
qed

lemma mask_at_tabulate:
  "mask_at (tabulate R C f) i j \<longleftrightarrow>
   0 \<le> i \<and> i < int R \<and> 0 \<le> j \<and> j < int C \<and> f (nat i) (nat j)"
proof -
  have nth: "tabulate R C f ! nat i ! nat j = f (nat i) (nat j)"
    if "0 \<le> i" "i < int R" "0 \<le> j" "j < int C"
  proof -
    have "nat i < R" "nat j < C" using that by linarith+
    then show ?thesis using that by (simp add: tabulate_def)
  qed
  show ?thesis
    unfolding mask_at_def num_rows_tabulate num_columns_tabulate
    using nth by (cases "R = 0") auto
qed

lemma tabulate_cong:
  assumes "\<And>i j. i < R \<Longrightarrow> j < C \<Longrightarrow> f i j = g i j"
  shows "tabulate R C f = tabulate R C g"
  unfolding tabulate_def by (intro map_cong refl) (simp add: assms)

lemma shape_empty: "num_rows m = 0 \<Longrightarrow> num_columns m = 0"
  by (cases m) (simp_all add: num_rows_def num_columns_def)

lemma shape_dilation:
  "num_rows (binary_dilation m S) = num_rows m"
  "num_columns (binary_dilation m S) = num_columns m"
  by (simp_all add: binary_dilation_def num_rows_tabulate num_columns_tabulate shape_empty)

lemma shape_erosion:
  "num_rows (binary_erosion m S) = num_rows m"
  "num_columns (binary_erosion m S) = num_columns m"
  by (simp_all add: binary_erosion_def num_rows_tabulate num_columns_tabulate shape_empty)

lemma shape_closing:
  "num_rows (binary_closing m S) = num_rows m"
  "num_columns (binary_closing m S) = num_columns m"
  by (simp_all add: binary_closing_def shape_erosion shape_dilation)

lemma mask_at_dilation:
  "mask_at (binary_dilation m S) i j \<longleftrightarrow>
   in_image m i j \<and> (\<exists>s\<in>set (structure_offsets S). mask_at m (i - fst s) (j - snd s))"
  by (auto simp add: binary_dilation_def mask_at_tabulate in_image_def list_ex_iff)

lemma mask_at_erosion:
  "mask_at (binary_erosion m S) i j \<longleftrightarrow>
   in_image m i j \<and> (\<forall>s\<in>set (structure_offsets S). mask_at m (i + fst s) (j + snd s))"
  by (auto simp add: binary_erosion_def mask_at_tabulate in_image_def list_all_iff)

lemma mask_at_closing:
  "mask_at (binary_closing m S) i j \<longleftrightarrow>
   in_image m i j \<and>
   (\<forall>s\<in>set (structure_offsets S). in_image m (i + fst s) (j + snd s) \<and>
      (\<exists>t\<in>set (structure_offsets S). mask_at m (i + fst s - fst t) (j + snd s - snd t)))"
  unfolding binary_closing_def mask_at_erosion mask_at_dilation in_image_def shape_dilation ..

lemma closing_as_tabulate:
  "binary_closing m S =
   tabulate (num_rows m) (num_columns m) (\<lambda>i j. mask_at (binary_closing m S) (int i) (int j))"
proof -
  let ?d = "binary_dilation m S"
  have "binary_closing m S = tabulate (num_rows m) (num_columns m)
       (\<lambda>i j. list_all (\<lambda>s. mask_at ?d (int i + fst s) (int j + snd s)) (structure_offsets S))"
    by (simp add: binary_closing_def binary_erosion_def shape_dilation)
  also have "\<dots> = tabulate (num_rows m) (num_columns m)
       (\<lambda>i j. mask_at (binary_closing m S) (int i) (int j))"
    by (rule tabulate_cong)
       (simp add: binary_closing_def mask_at_erosion in_image_def shape_dilation list_all_iff)
  finally show ?thesis .
qed

lemma binary_closing_twice:
  "binary_closing (binary_closing m S) S = binary_closing m S"
proof -
  let ?c = "binary_closing m S"
  let ?O = "set (structure_offsets S)"
  have pointwise: "mask_at (binary_closing ?c S) i j = mask_at ?c i j" for i j
  proof
    assume cc: "mask_at (binary_closing ?c S) i j"
    then have img: "in_image m i j"
      unfolding mask_at_closing [of ?c] by (simp add: in_image_def shape_closing)
    have "in_image m (i + fst s) (j + snd s) \<and>
          (\<exists>t\<in>?O. mask_at m (i + fst s - fst t) (j + snd s - snd t))" if s: "s \<in> ?O" for s
    proof -
      from cc s obtain t where t: "t \<in> ?O" "mask_at ?c (i + fst s - fst t) (j + snd s - snd t)"
        unfolding mask_at_closing [of ?c] by blast
      from t(2) [unfolded mask_at_closing [of m]] t(1)
      have "in_image m (i + fst s - fst t + fst t) (j + snd s - snd t + snd t) \<and>
        (\<exists>u\<in>?O. mask_at m (i + fst s - fst t + fst t - fst u) (j + snd s - snd t + snd t - snd u))"
        by blast
      then show ?thesis by simp
    qed
    with img show "mask_at ?c i j" unfolding mask_at_closing [of m] by blast
  next
    assume c: "mask_at ?c i j"
    then have img: "in_image ?c i j"
      unfolding mask_at_closing [of m] by (simp add: in_image_def shape_closing)
    have "in_image ?c (i + fst s) (j + snd s) \<and>
          (\<exists>t\<in>?O. mask_at ?c (i + fst s - fst t) (j + snd s - snd t))" if s: "s \<in> ?O" for s
    proof -
      have "in_image m (i + fst s) (j + snd s)"
        using c s unfolding mask_at_closing [of m] by blast
      then have "in_image ?c (i + fst s) (j + snd s)"
        by (simp add: in_image_def shape_closing)
      moreover have "mask_at ?c (i + fst s - fst s) (j + snd s - snd s)" using c by simp
      ultimately show ?thesis using s by blast
    qed
    with img show "mask_at (binary_closing ?c S) i j"
      unfolding mask_at_closing [of ?c] by blast
  qed
  have "binary_closing ?c S =
        tabulate (num_rows ?c) (num_columns ?c) (\<lambda>i j. mask_at (binary_closing ?c S) (int i) (int j))"
    by (rule closing_as_tabulate)
  also have "\<dots> = tabulate (num_rows m) (num_columns m) (\<lambda>i j. mask_at ?c (int i) (int j))"
    unfolding shape_closing by (rule tabulate_cong) (rule pointwise)
  also have "\<dots> = ?c" by (rule closing_as_tabulate [symmetric])
  finally show ?thesis .
qed

text \<open>
  Claim C9 (closing is idempotent). For every Boolean matrix, the binary closing with the
  3-by-3 structuring element of the module, applied to its own result, returns that
  result.
\<close>

theorem binary_closing_idempotent:
  "binary_closing (binary_closing m STRUCTURE_MATRIX_FOR_BINARY_CLOSING)
     STRUCTURE_MATRIX_FOR_BINARY_CLOSING =
   binary_closing m STRUCTURE_MATRIX_FOR_BINARY_CLOSING"
  by (rule binary_closing_twice)

theorem binary_closing_idempotent_witness:
  "binary_closing [[False, False, False, False, False],
                   [False, True, False, True, False],
                   [False, False, False, False, False]]
     STRUCTURE_MATRIX_FOR_BINARY_CLOSING =
     [[False, False, False, False, False],
      [False, True, True, True, False],
      [False, False, False, False, False]] \<and>
   binary_closing [[False, False, False, False, False],
                   [False, True, True, True, False],
                   [False, False, False, False, False]]
     STRUCTURE_MATRIX_FOR_BINARY_CLOSING =
     [[False, False, False, False, False],
      [False, True, True, True, False],
      [False, False, False, False, False]]"
proof -
  have c: "binary_closing [[False, False, False, False, False],
                   [False, True, False, True, False],
                   [False, False, False, False, False]]
     STRUCTURE_MATRIX_FOR_BINARY_CLOSING =
     [[False, False, False, False, False],
      [False, True, True, True, False],
      [False, False, False, False, False]]"
    by code_simp
  show ?thesis
    using binary_closing_idempotent [of "[[False, False, False, False, False],
                   [False, True, False, True, False],
                   [False, False, False, False, False]]"]
    unfolding c by (simp add: c)
qed

section \<open>Properties of the classification by thermal advection\<close>


lemma is_matrix_tabulate: "is_matrix R C (tabulate R C f)"
  by (simp add: is_matrix_def tabulate_def list_all_iff)

lemma nth_tabulate: "i < R \<Longrightarrow> j < C \<Longrightarrow> tabulate R C f ! i ! j = f i j"
  by (simp add: tabulate_def)

lemma is_matrix_shape:
  "is_matrix R C a \<Longrightarrow> map length a = replicate R C"
  by (auto simp add: is_matrix_def list_all_length intro!: nth_equalityI)

lemma same_shape_matrices: "is_matrix R C a \<Longrightarrow> is_matrix R C b \<Longrightarrow> same_shape a b"
  by (simp add: same_shape_def is_matrix_shape)

lemma is_matrix_zip:
  "is_matrix R C a \<Longrightarrow> is_matrix R C b \<Longrightarrow> is_matrix R C (map2 zip a b)"
  by (auto simp add: is_matrix_def list_all_length)

lemma nth_zip_matrix:
  "is_matrix R C a \<Longrightarrow> is_matrix R C b \<Longrightarrow> i < R \<Longrightarrow> j < C \<Longrightarrow>
   map2 zip a b ! i ! j = (a ! i ! j, b ! i ! j)"
  by (simp add: is_matrix_def list_all_length)

lemma numpy_where_in_grid:
  assumes "is_matrix R C m"
  shows "list_all (in_grid R C) (zip (fst (numpy_where P m)) (snd (numpy_where P m)))"
  unfolding list_all_iff set_zip_numpy_where [OF assms]
  by (auto simp add: in_grid_def)

lemma length_numpy_where:
  "length (fst (numpy_where P m)) = length (snd (numpy_where P m))"
  by (simp add: numpy_where_def)

lemma thermal_advection_cells:
  assumes "is_matrix R C u" "is_matrix R C v" "is_matrix R C theta"
    and "2 \<le> R" "2 \<le> C" "dx \<noteq> 0" "dy \<noteq> 0"
  shows "get_thermal_advection_over_grid u v theta dx dy =
     Inr (tabulate R C (\<lambda>i j. - (u ! i ! j * gradient_1d (theta ! i) dx j +
                                 v ! i ! j * gradient_1d (matrix_column theta j) dy i)))"
proof -
  have shape: "num_rows theta = R" "num_columns theta = C"
    using assms(3,4) is_matrix_num_columns [of R C theta] by (simp_all add: is_matrix_num_rows)
  have grad: "numpy_gradient theta dy dx =
      Inr (tabulate R C (\<lambda>i j. gradient_1d (matrix_column theta j) dy i),
           tabulate R C (\<lambda>i j. gradient_1d (theta ! i) dx j))"
    using assms(4-7) by (simp add: numpy_gradient_def shape)
  have "tabulate R C (\<lambda>i j. - (u ! i ! j *
            tabulate R C (\<lambda>i j. gradient_1d (theta ! i) dx j) ! i ! j +
          v ! i ! j * tabulate R C (\<lambda>i j. gradient_1d (matrix_column theta j) dy i) ! i ! j)) =
        tabulate R C (\<lambda>i j. - (u ! i ! j * gradient_1d (theta ! i) dx j +
                                 v ! i ! j * gradient_1d (matrix_column theta j) dy i))"
    by (rule tabulate_cong) (simp add: nth_tabulate)
  then show ?thesis
    unfolding get_thermal_advection_over_grid_def grad
    using same_shape_matrices [OF assms(1,3)] same_shape_matrices [OF assms(2,3)]
    by (simp add: shape)
qed

text \<open>
  Claim C8 (front types from the sign of the advection). Let the two wind matrices, the
  thermal matrix and the front mask have one shape with two rows and two columns or more,
  and let both grid spacings be nonzero. Then both functions return; the advection at a
  cell is \<open>- (u * d theta / dx + v * d theta / dy)\<close> with the finite differences of
  \<open>numpy.gradient\<close>; a cell of the mask is warm front when the advection is positive and
  cold front otherwise, zero included; a cell outside the mask is no front. In
  particular, when \<open>u\<close> is 1, \<open>v\<close> is 0 and the finite difference of the thermal matrix
  along \<open>x\<close> is one positive constant everywhere, every cell of the mask is cold front.
\<close>

theorem frontal_types_from_advection:
  assumes "is_matrix R C u" "is_matrix R C v" "is_matrix R C theta" "is_matrix R C front_mask"
    and "2 \<le> R" "2 \<le> C" "dx \<noteq> 0" "dy \<noteq> 0"
  shows "\<exists>adv grid.
     get_thermal_advection_over_grid u v theta dx dy = Inr adv \<and>
     get_frontal_types_over_grid u v theta front_mask dx dy = Inr grid \<and>
     is_matrix R C grid \<and>
     (\<forall>i<R. \<forall>j<C.
        adv ! i ! j = - (u ! i ! j * gradient_1d (theta ! i) dx j +
                         v ! i ! j * gradient_1d (matrix_column theta j) dy i) \<and>
        grid ! i ! j =
          (if front_mask ! i ! j
           then (if adv ! i ! j > 0 then WARM_FRONT_INTEGER_ID else COLD_FRONT_INTEGER_ID)
           else NO_FRONT_INTEGER_ID)) \<and>
     (\<forall>c>0. (\<forall>i<R. \<forall>j<C. u ! i ! j = 1 \<and> v ! i ! j = 0 \<and>
                               gradient_1d (theta ! i) dx j = c) \<longrightarrow>
             (\<forall>i<R. \<forall>j<C. front_mask ! i ! j \<longrightarrow> grid ! i ! j = COLD_FRONT_INTEGER_ID))"
proof -
  define adv where "adv = tabulate R C (\<lambda>i j. - (u ! i ! j * gradient_1d (theta ! i) dx j +
                                 v ! i ! j * gradient_1d (matrix_column theta j) dy i))"
  have adv: "get_thermal_advection_over_grid u v theta dx dy = Inr adv"
    unfolding adv_def using assms(1-3,5-8) by (rule thermal_advection_cells)
  have madv: "is_matrix R C adv" unfolding adv_def by (rule is_matrix_tabulate)
  have cadv: "adv ! i ! j = - (u ! i ! j * gradient_1d (theta ! i) dx j +
                         v ! i ! j * gradient_1d (matrix_column theta j) dy i)"
    if "i < R" "j < C" for i j
    using that by (simp add: adv_def nth_tabulate)
  let ?Z = "map2 zip adv front_mask"
  let ?W = "numpy_where (\<lambda>p. fst p > 0 \<and> snd p) ?Z"
  let ?K = "numpy_where (\<lambda>p. fst p \<le> 0 \<and> snd p) ?Z"
  have mz: "is_matrix R C ?Z" using madv assms(4) by (rule is_matrix_zip)
  have cz: "?Z ! i ! j = (adv ! i ! j, front_mask ! i ! j)" if "i < R" "j < C" for i j
    using madv assms(4) that by (rule nth_zip_matrix)
  have shape: "num_rows front_mask = R" "num_columns front_mask = C"
    using assms(4,5) is_matrix_num_columns [of R C front_mask] by (simp_all add: is_matrix_num_rows)
  have lenW: "length (fst ?W) = length (snd ?W)" and lenK: "length (fst ?K) = length (snd ?K)"
    by (rule length_numpy_where)+
  have inW0: "list_all (in_grid R C) (zip (fst ?W) (snd ?W))"
    and inK0: "list_all (in_grid R C) (zip (fst ?K) (snd ?K))"
    by (rule numpy_where_in_grid [OF mz])+
  obtain g1 where g1: "assign_points (full R C NO_FRONT_INTEGER_ID) (fst ?W) (snd ?W)
        WARM_FRONT_INTEGER_ID = Inr g1" "is_matrix R C g1"
    "\<forall>a<R. \<forall>b<C. g1 ! a ! b = (if (int a, int b) \<in> set (zip (fst ?W) (snd ?W))
        then WARM_FRONT_INTEGER_ID else full R C NO_FRONT_INTEGER_ID ! a ! b)"
    using assign_points_in_grid [OF is_matrix_full [of R C NO_FRONT_INTEGER_ID] lenW inW0,
        of WARM_FRONT_INTEGER_ID]
    by blast
  obtain grid where grid: "assign_points g1 (fst ?K) (snd ?K) COLD_FRONT_INTEGER_ID = Inr grid"
    "is_matrix R C grid"
    "\<forall>a<R. \<forall>b<C. grid ! a ! b = (if (int a, int b) \<in> set (zip (fst ?K) (snd ?K))
        then COLD_FRONT_INTEGER_ID else g1 ! a ! b)"
    using assign_points_in_grid [OF g1(2) lenK inK0, of COLD_FRONT_INTEGER_ID]
    by blast
  have run: "get_frontal_types_over_grid u v theta front_mask dx dy = Inr grid"
    unfolding get_frontal_types_over_grid_def adv
    using same_shape_matrices [OF madv assms(4)] g1(1) grid(1)
    by (simp add: shape split_beta)
  have inW: "(int i, int j) \<in> set (zip (fst ?W) (snd ?W)) \<longleftrightarrow> adv ! i ! j > 0 \<and> front_mask ! i ! j"
    if "i < R" "j < C" for i j
    unfolding set_zip_numpy_where [OF mz] using that cz by auto
  have inK: "(int i, int j) \<in> set (zip (fst ?K) (snd ?K)) \<longleftrightarrow> adv ! i ! j \<le> 0 \<and> front_mask ! i ! j"
    if "i < R" "j < C" for i j
    unfolding set_zip_numpy_where [OF mz] using that cz by auto
  have cell: "grid ! i ! j =
          (if front_mask ! i ! j
           then (if adv ! i ! j > 0 then WARM_FRONT_INTEGER_ID else COLD_FRONT_INTEGER_ID)
           else NO_FRONT_INTEGER_ID)" if ij: "i < R" "j < C" for i j
    using grid(3) [rule_format, OF ij] g1(3) [rule_format, OF ij]
    by (auto simp add: inW [OF ij] inK [OF ij] full_def ij)
  have special: "grid ! i ! j = COLD_FRONT_INTEGER_ID"
    if c: "0 < c"
      and h: "\<forall>i<R. \<forall>j<C. u ! i ! j = 1 \<and> v ! i ! j = 0 \<and> gradient_1d (theta ! i) dx j = c"
      and ij: "i < R" "j < C" and mk: "front_mask ! i ! j" for c i j
  proof -
    have "adv ! i ! j = - c" using cadv [OF ij] h ij by simp
    then show ?thesis using cell [OF ij] mk c by simp
  qed
  show ?thesis
    using adv run grid(2) cadv cell special by blast
qed

theorem frontal_types_from_advection_witness:
  "is_matrix 3 3 [[1, 1, 1], [1, 1, 1], [1, 1, 1 :: real]] \<and>
   is_matrix 3 3 [[0, 2, 4], [0, 2, 4], [0, 2, 4 :: real]] \<and>
   (\<exists>grid.
      get_frontal_types_over_grid [[1, 1, 1], [1, 1, 1], [1, 1, 1]]
        [[0, 0, 0], [0, 0, 0], [0, 0, 0]] [[0, 2, 4], [0, 2, 4], [0, 2, 4]]
        [[True, False, True], [False, True, False], [True, True, True]] 1 1 = Inr grid \<and>
      grid ! 0 ! 0 = COLD_FRONT_INTEGER_ID \<and> grid ! 1 ! 1 = COLD_FRONT_INTEGER_ID \<and>
      grid ! 0 ! 1 = NO_FRONT_INTEGER_ID)"
proof -
  let ?u = "[[1, 1, 1], [1, 1, 1], [1, 1, 1 :: real]]"
  let ?v = "[[0, 0, 0], [0, 0, 0], [0, 0, 0 :: real]]"
  let ?t = "[[0, 2, 4], [0, 2, 4], [0, 2, 4 :: real]]"
  let ?m = "[[True, False, True], [False, True, False], [True, True, True]]"
  have u: "is_matrix 3 3 ?u" and v: "is_matrix 3 3 ?v" and t: "is_matrix 3 3 ?t"
    and m: "is_matrix 3 3 ?m"
    by (simp_all add: is_matrix_def)
  have n: "2 \<le> (3::nat)" and d: "(1::real) \<noteq> 0" by simp_all
  from frontal_types_from_advection [OF u v t m n n d d] obtain adv grid where
    run: "get_frontal_types_over_grid ?u ?v ?t ?m 1 1 = Inr grid"
    and cells: "\<forall>i<3. \<forall>j<3.
        adv ! i ! j = - (?u ! i ! j * gradient_1d (?t ! i) 1 j +
                         ?v ! i ! j * gradient_1d (matrix_column ?t j) 1 i) \<and>
        grid ! i ! j =
          (if ?m ! i ! j
           then (if adv ! i ! j > 0 then WARM_FRONT_INTEGER_ID else COLD_FRONT_INTEGER_ID)
           else NO_FRONT_INTEGER_ID)"
    and special: "\<forall>c>0. (\<forall>i<3. \<forall>j<3. ?u ! i ! j = 1 \<and> ?v ! i ! j = 0 \<and>
                               gradient_1d (?t ! i) 1 j = c) \<longrightarrow>
             (\<forall>i<3. \<forall>j<3. ?m ! i ! j \<longrightarrow> grid ! i ! j = COLD_FRONT_INTEGER_ID)"
    by blast
  have grad: "\<forall>i<3. \<forall>j<3. ?u ! i ! j = 1 \<and> ?v ! i ! j = 0 \<and> gradient_1d (?t ! i) 1 j = 2"
    by (auto simp add: less_Suc_eq numeral_3_eq_3 gradient_1d_def)
  from special grad have cold: "\<forall>i<3. \<forall>j<3. ?m ! i ! j \<longrightarrow> grid ! i ! j = COLD_FRONT_INTEGER_ID"
    by (metis zero_less_numeral)
  have "grid ! 0 ! 0 = COLD_FRONT_INTEGER_ID" "grid ! 1 ! 1 = COLD_FRONT_INTEGER_ID"
    using cold by auto
  moreover have "grid ! 0 ! 1 = NO_FRONT_INTEGER_ID"
    using cells [rule_format, of 0 1] by simp
  ultimately show ?thesis using run u t by blast
qed

section \<open>Properties of the region extraction\<close>


lemma grow_sets:
  "set region \<subseteq> set (grow pool region) \<and> set (grow pool region) \<subseteq> set region \<union> set pool"
proof (induction pool region rule: grow.induct)
  case (1 pool region)
  let ?new = "filter (\<lambda>q. q \<notin> set region \<and> list_ex (neighbours q) region) pool"
  show ?case
  proof (cases "?new = []")
    case True
    then show ?thesis by (subst (1 2) grow.simps) (simp add: Let_def)
  next
    case False
    have g: "grow pool region = grow pool (region @ ?new)"
      using False by (subst grow.simps) (simp add: Let_def)
    from 1 [OF refl False] show ?thesis unfolding g by auto
  qed
qed

lemma fold_set_cell:
  assumes "is_matrix R C l" "\<forall>q\<in>set qs. fst q < R \<and> snd q < C"
  shows "is_matrix R C (fold (\<lambda>q l. set_cell l (fst q) (snd q) v) qs l) \<and>
    (\<forall>a<R. \<forall>b<C. fold (\<lambda>q l. set_cell l (fst q) (snd q) v) qs l ! a ! b =
        (if (a, b) \<in> set qs then v else l ! a ! b))"
  using assms
proof (induction qs arbitrary: l)
  case Nil
  then show ?case by simp
next
  case (Cons q qs)
  let ?l1 = "set_cell l (fst q) (snd q) v"
  have m1: "is_matrix R C ?l1" using Cons.prems(1) by (rule is_matrix_set_cell)
  have q: "fst q < R" "snd q < C" using Cons.prems(2) by simp_all
  have rest: "\<forall>q\<in>set qs. fst q < R \<and> snd q < C" using Cons.prems(2) by simp
  have c1: "?l1 ! a ! b = (if (a, b) = q then v else l ! a ! b)" if "a < R" "b < C" for a b
    using nth_set_cell [OF Cons.prems(1) q that, of v] by (auto simp add: prod_eq_iff)
  from Cons.IH [OF m1 rest] c1 show ?case by auto
qed

lemma set_where_cells_zip:
  assumes "is_matrix R C a" "is_matrix R C b"
  shows "set (where_cells P (map2 zip a b)) =
     {(i, j). i < R \<and> j < C \<and> P (a ! i ! j, b ! i ! j)}"
  using assms unfolding set_where_cells
  by (auto simp add: is_matrix_def list_all_length)

lemma flood_fill_cells:
  assumes "is_matrix R C pixels" "is_matrix R C labels" "fst p < R" "snd p < C"
    and "q \<in> set (flood_fill pixels labels p)"
  shows "q = p \<or> (fst q < R \<and> snd q < C \<and>
            pixels ! fst q ! snd q = pixels ! fst p ! snd p \<and> labels ! fst q ! snd q = 0)"
proof -
  let ?pool = "where_cells (\<lambda>x. fst x = pixels ! fst p ! snd p \<and> snd x = 0) (map2 zip pixels labels)"
  from assms(5) have "q \<in> set [p] \<union> set ?pool"
    unfolding flood_fill_def using grow_sets [of "[p]" ?pool] by blast
  then show ?thesis
    unfolding set_where_cells_zip [OF assms(1,2)] by auto
qed

lemma flood_fill_seed: "p \<in> set (flood_fill pixels labels p)"
  unfolding flood_fill_def using grow_sets [of "[p]"] by auto

lemma label_cells_labelled:
  assumes "is_matrix R C pixels" "labelled pixels labels n R C"
    and "\<forall>p\<in>set cells. fst p < R \<and> snd p < C"
  shows "\<exists>labels' n'. label_cells pixels cells (labels, n) = (labels', n') \<and>
     labelled pixels labels' n' R C \<and>
     (\<forall>p\<in>set cells. pixels ! fst p ! snd p \<noteq> 0 \<longrightarrow> labels' ! fst p ! snd p \<noteq> 0) \<and>
     (\<forall>i<R. \<forall>j<C. labels ! i ! j \<noteq> 0 \<longrightarrow> labels' ! i ! j = labels ! i ! j)"
  using assms(2,3)
proof (induction cells arbitrary: labels n)
  case Nil
  then show ?case by simp
next
  case (Cons p cells)
  have p: "fst p < R" "snd p < C" using Cons.prems(2) by simp_all
  have rest: "\<forall>p\<in>set cells. fst p < R \<and> snd p < C" using Cons.prems(2) by simp
  from Cons.prems(1) have ml: "is_matrix R C labels" and n0: "0 \<le> n"
    and L3: "\<forall>i<R. \<forall>j<C. 0 \<le> labels ! i ! j \<and> labels ! i ! j \<le> n \<and>
        (labels ! i ! j \<noteq> 0 \<longrightarrow> pixels ! i ! j \<noteq> 0)"
    and L4: "\<forall>k. 1 \<le> k \<and> k \<le> n \<longrightarrow> (\<exists>i<R. \<exists>j<C. labels ! i ! j = k)"
    and L5: "\<forall>i<R. \<forall>j<C. \<forall>i'<R. \<forall>j'<C.
        labels ! i ! j \<noteq> 0 \<and> labels ! i ! j = labels ! i' ! j' \<longrightarrow>
        pixels ! i ! j = pixels ! i' ! j'"
    unfolding labelled_def by blast+
  have La: "0 \<le> labels ! i ! j" and Lb: "labels ! i ! j \<le> n"
    and Lc: "labels ! i ! j \<noteq> 0 \<Longrightarrow> pixels ! i ! j \<noteq> 0" if "i < R" "j < C" for i j
    using L3 [rule_format, OF that] by simp_all
  have Ld: "\<exists>i<R. \<exists>j<C. labels ! i ! j = k" if "1 \<le> k" "k \<le> n" for k
    using L4 [rule_format, of k] that by simp
  have Le: "pixels ! i ! j = pixels ! i' ! j'"
    if "i < R" "j < C" "i' < R" "j' < C" "labels ! i ! j \<noteq> 0" "labels ! i ! j = labels ! i' ! j'"
    for i j i' j'
    using L5 [rule_format, OF that(1-4)] that(5,6) by simp
  show ?case
  proof (cases "pixels ! fst p ! snd p \<noteq> 0 \<and> labels ! fst p ! snd p = 0")
    case False
    from Cons.IH [OF Cons.prems(1) rest] obtain labels' n' where
      r: "label_cells pixels cells (labels, n) = (labels', n')" "labelled pixels labels' n' R C"
      "\<forall>p\<in>set cells. pixels ! fst p ! snd p \<noteq> 0 \<longrightarrow> labels' ! fst p ! snd p \<noteq> 0"
      "\<forall>i<R. \<forall>j<C. labels ! i ! j \<noteq> 0 \<longrightarrow> labels' ! i ! j = labels ! i ! j"
      by blast
    have "label_cells pixels (p # cells) (labels, n) = (labels', n')"
      using False r(1) by auto
    moreover have "pixels ! fst p ! snd p \<noteq> 0 \<longrightarrow> labels' ! fst p ! snd p \<noteq> 0"
      using False r(4) p by auto
    ultimately show ?thesis using r(2,3,4) by auto
  next
    case True
    let ?F = "flood_fill pixels labels p"
    let ?l1 = "fold (\<lambda>q l. set_cell l (fst q) (snd q) (n + 1)) ?F labels"
    have F: "q = p \<or> (fst q < R \<and> snd q < C \<and>
            pixels ! fst q ! snd q = pixels ! fst p ! snd p \<and> labels ! fst q ! snd q = 0)"
      if "q \<in> set ?F" for q
      using flood_fill_cells [OF assms(1) ml p that] .
    have Fin: "\<forall>q\<in>set ?F. fst q < R \<and> snd q < C" using F p by auto
    have F0: "labels ! a ! b = 0" and Fv: "pixels ! a ! b = pixels ! fst p ! snd p"
      if "(a, b) \<in> set ?F" for a b
      using F [OF that] True by auto
    from fold_set_cell [OF ml Fin, of "n + 1"]
    have m1: "is_matrix R C ?l1"
      and c1: "\<And>a b. a < R \<Longrightarrow> b < C \<Longrightarrow>
          ?l1 ! a ! b = (if (a, b) \<in> set ?F then n + 1 else labels ! a ! b)"
      by simp_all
    have L1: "labelled pixels ?l1 (n + 1) R C"
      unfolding labelled_def
    proof (intro conjI allI impI)
      show "is_matrix R C ?l1" by (rule m1)
      show "0 \<le> n + 1" using n0 by simp
    next
      fix i j assume ij: "i < R" "j < C"
      show "0 \<le> ?l1 ! i ! j" using c1 [OF ij] La [OF ij] n0 by simp
      show "?l1 ! i ! j \<le> n + 1" using c1 [OF ij] Lb [OF ij] by simp
      assume nz: "?l1 ! i ! j \<noteq> 0"
      show "pixels ! i ! j \<noteq> 0"
      proof (cases "(i, j) \<in> set ?F")
        case True
        then show ?thesis using Fv [of i j] \<open>pixels ! fst p ! snd p \<noteq> 0 \<and> labels ! fst p ! snd p = 0\<close>
          by simp
      next
        case False
        then show ?thesis using c1 [OF ij] nz Lc [OF ij] by simp
      qed
    next
      fix k assume k: "1 \<le> k \<and> k \<le> n + 1"
      show "\<exists>i<R. \<exists>j<C. ?l1 ! i ! j = k"
      proof (cases "k = n + 1")
        case True
        have "?l1 ! fst p ! snd p = n + 1" using c1 [OF p] flood_fill_seed [of p pixels labels] by simp
        then show ?thesis using True p by blast
      next
        case False
        then have "1 \<le> k \<and> k \<le> n" using k by simp
        then obtain i j where ij: "i < R" "j < C" "labels ! i ! j = k" using Ld [of k] by blast
        then have "(i, j) \<notin> set ?F" using F0 [of i j] k by auto
        then have "?l1 ! i ! j = k" using c1 [OF ij(1,2)] ij(3) by simp
        then show ?thesis using ij by blast
      qed
    next
      fix i j i' j' assume ij: "i < R" "j < C" "i' < R" "j' < C"
        and eq: "?l1 ! i ! j \<noteq> 0 \<and> ?l1 ! i ! j = ?l1 ! i' ! j'"
      have le: "labels ! i ! j \<le> n" "labels ! i' ! j' \<le> n" using Lb ij by auto
      show "pixels ! i ! j = pixels ! i' ! j'"
      proof (cases "(i, j) \<in> set ?F")
        case True
        then have "?l1 ! i ! j = n + 1" using c1 [OF ij(1,2)] by simp
        then have "(i', j') \<in> set ?F" using eq c1 [OF ij(3,4)] le by (auto split: if_splits)
        then show ?thesis using Fv True by simp
      next
        case False
        then have a: "?l1 ! i ! j = labels ! i ! j" using c1 [OF ij(1,2)] by simp
        then have "(i', j') \<notin> set ?F" using eq c1 [OF ij(3,4)] le by (auto split: if_splits)
        then have b: "?l1 ! i' ! j' = labels ! i' ! j'" using c1 [OF ij(3,4)] by simp
        have "labels ! i ! j \<noteq> 0" using eq unfolding a by blast
        moreover have "labels ! i ! j = labels ! i' ! j'" using eq unfolding a b by blast
        ultimately show ?thesis by (rule Le [OF ij])
      qed
    qed
    from Cons.IH [OF L1 rest] obtain labels' n' where
      r: "label_cells pixels cells (?l1, n + 1) = (labels', n')" "labelled pixels labels' n' R C"
      "\<forall>p\<in>set cells. pixels ! fst p ! snd p \<noteq> 0 \<longrightarrow> labels' ! fst p ! snd p \<noteq> 0"
      "\<forall>i<R. \<forall>j<C. ?l1 ! i ! j \<noteq> 0 \<longrightarrow> labels' ! i ! j = ?l1 ! i ! j"
      by blast
    have run: "label_cells pixels (p # cells) (labels, n) = (labels', n')"
      using True r(1) by simp
    have seed: "?l1 ! fst p ! snd p = n + 1"
      using c1 [OF p] flood_fill_seed [of p pixels labels] by simp
    then have "labels' ! fst p ! snd p \<noteq> 0" using r(4) p n0 by auto
    moreover have "\<forall>i<R. \<forall>j<C. labels ! i ! j \<noteq> 0 \<longrightarrow> labels' ! i ! j = labels ! i ! j"
    proof (intro allI impI)
      fix i j assume ij: "i < R" "j < C" and nz: "labels ! i ! j \<noteq> 0"
      then have "(i, j) \<notin> set ?F" using F0 [of i j] by auto
      then have "?l1 ! i ! j = labels ! i ! j" using c1 [OF ij] by simp
      then show "labels' ! i ! j = labels ! i ! j" using r(4) ij nz by simp
    qed
    ultimately show ?thesis using run r(2,3) by auto
  qed
qed


lemma set_where_cells_matrix:
  assumes "is_matrix R C m"
  shows "set (where_cells P m) = {(i, j). i < R \<and> j < C \<and> P (m ! i ! j)}"
  using assms unfolding set_where_cells
  by (auto simp add: is_matrix_def list_all_length)

lemma label_image_labelled:
  assumes "is_matrix R C pixels"
  shows "\<exists>n. labelled pixels (label_image pixels) n R C \<and>
     (\<forall>i<R. \<forall>j<C. pixels ! i ! j \<noteq> 0 \<longrightarrow> label_image pixels ! i ! j \<noteq> 0)"
proof -
  let ?l0 = "map (map (\<lambda>x. 0::int)) pixels"
  let ?cells = "where_cells (\<lambda>x. True) pixels"
  have m0: "is_matrix R C ?l0"
    using assms by (simp add: is_matrix_def list_all_iff)
  have z: "?l0 ! i ! j = 0" if "i < R" "j < C" for i j
    using assms that by (simp add: is_matrix_def list_all_length)
  have L0: "labelled pixels ?l0 0 R C"
    unfolding labelled_def using m0 z by simp
  have cells: "set ?cells = {(i, j). i < R \<and> j < C}"
    using set_where_cells_matrix [OF assms, of "\<lambda>x. True"] by simp
  then have inr: "\<forall>p\<in>set ?cells. fst p < R \<and> snd p < C" by auto
  from label_cells_labelled [OF assms L0 inr] obtain labels' n' where
    r: "label_cells pixels ?cells (?l0, 0) = (labels', n')" "labelled pixels labels' n' R C"
    "\<forall>p\<in>set ?cells. pixels ! fst p ! snd p \<noteq> 0 \<longrightarrow> labels' ! fst p ! snd p \<noteq> 0"
    by blast
  have li: "label_image pixels = labels'" by (simp add: label_image_def r(1))
  have "pixels ! i ! j \<noteq> 0 \<longrightarrow> labels' ! i ! j \<noteq> 0" if "i < R" "j < C" for i j
  proof -
    have "(i, j) \<in> set ?cells" unfolding cells using that by simp
    with r(3) show ?thesis by fastforce
  qed
  with r(2) show ?thesis unfolding li by blast
qed

lemma in_concat_matrix:
  assumes "is_matrix R C m"
  shows "x \<in> set (concat m) \<longleftrightarrow> (\<exists>i<R. \<exists>j<C. x = m ! i ! j)"
proof
  assume "x \<in> set (concat m)"
  then obtain row where row: "row \<in> set m" "x \<in> set row" by auto
  from row(1) obtain i where i: "i < length m" "row = m ! i" by (auto simp add: in_set_conv_nth)
  from row(2) obtain j where j: "j < length row" "x = row ! j" by (auto simp add: in_set_conv_nth)
  have "i < R" using i assms by (simp add: is_matrix_def)
  moreover have "j < C" using j i is_matrix_row [OF assms \<open>i < R\<close>] by simp
  ultimately show "\<exists>i<R. \<exists>j<C. x = m ! i ! j" using i j by blast
next
  assume "\<exists>i<R. \<exists>j<C. x = m ! i ! j"
  then obtain i j where ij: "i < R" "j < C" "x = m ! i ! j" by blast
  have "m ! i \<in> set m" using ij(1) assms by (simp add: is_matrix_def)
  moreover have "x \<in> set (m ! i)" using ij is_matrix_row [OF assms ij(1)] by simp
  ultimately show "x \<in> set (concat m)" by auto
qed

lemma numpy_max_labels:
  assumes "labelled pixels labels n R C" "0 < R" "0 < C"
  shows "numpy_max (concat labels) = Inr n"
proof -
  from assms(1) have ml: "is_matrix R C labels" and n0: "0 \<le> n"
    and L3: "\<forall>i<R. \<forall>j<C. 0 \<le> labels ! i ! j \<and> labels ! i ! j \<le> n \<and>
        (labels ! i ! j \<noteq> 0 \<longrightarrow> pixels ! i ! j \<noteq> 0)"
    and L4: "\<forall>k. 1 \<le> k \<and> k \<le> n \<longrightarrow> (\<exists>i<R. \<exists>j<C. labels ! i ! j = k)"
    unfolding labelled_def by blast+
  note s = in_concat_matrix [OF ml]
  have "labels ! 0 ! 0 \<in> set (concat labels)" unfolding s using assms(2,3) by blast
  then have ne: "concat labels \<noteq> []" by (metis list.set(1) empty_iff)
  have mem: "n \<in> set (concat labels)"
  proof (cases "n = 0")
    case True
    have "labels ! 0 ! 0 = 0" using L3 [rule_format, OF assms(2,3)] True by simp
    then show ?thesis unfolding s using True assms(2,3) by metis
  next
    case False
    then obtain i j where "i < R" "j < C" "labels ! i ! j = n"
      using L4 [rule_format, of n] n0 by auto
    then show ?thesis unfolding s by blast
  qed
  have ub: "x \<le> n" if "x \<in> set (concat labels)" for x
    using that L3 unfolding s by blast
  have "Max (set (concat labels)) = n"
    by (rule Max_eqI) (use mem ub in auto)
  then show ?thesis using numpy_max_nonempty [OF ne] by simp
qed

lemma collect_results_map:
  assumes "\<forall>k\<in>set ks. f k = Inr (g k)"
  shows "collect_results (map f ks) = Inr (map g ks)"
  using assms by (induction ks) simp_all

lemma is_matrix_closing:
  assumes "is_matrix R C m" "0 < R"
  shows "is_matrix R C (binary_closing m S)"
proof -
  have "num_rows m = R" "num_columns m = C"
    using assms is_matrix_num_columns [of R C m] by (simp_all add: is_matrix_num_rows)
  then show ?thesis
    using closing_as_tabulate [of m S] is_matrix_tabulate [of R C] by metis
qed

lemma close_frontal_grid_values:
  assumes m: "is_matrix R C m" and R: "0 < R"
    and valid: "all_cells (\<lambda>x. 0 \<le> x \<and> x \<le> 2) m"
  shows "is_matrix R C (close_frontal_grid_matrix m) \<and>
    (\<forall>i<R. \<forall>j<C. close_frontal_grid_matrix m ! i ! j = 0 \<or>
       close_frontal_grid_matrix m ! i ! j = 1 \<or> close_frontal_grid_matrix m ! i ! j = 2)"
proof -
  let ?w = "binary_closing (map (map (\<lambda>x. x = WARM_FRONT_INTEGER_ID)) m)
              STRUCTURE_MATRIX_FOR_BINARY_CLOSING"
  let ?c = "binary_closing (map (map (\<lambda>x. x = COLD_FRONT_INTEGER_ID)) m)
              STRUCTURE_MATRIX_FOR_BINARY_CLOSING"
  let ?m1 = "assign_where m (\<lambda>b. b) ?w WARM_FRONT_INTEGER_ID"
  have mb: "is_matrix R C (map (map f) m)" for f :: "int \<Rightarrow> bool"
    using m by (simp add: is_matrix_def list_all_iff)
  have mw: "is_matrix R C ?w" and mc: "is_matrix R C ?c"
    using mb R by (rule is_matrix_closing)+
  have m1: "is_matrix R C ?m1" using m mw by (rule is_matrix_assign_where)
  have eq: "close_frontal_grid_matrix m = assign_where ?m1 (\<lambda>b. b) ?c COLD_FRONT_INTEGER_ID"
    by (simp add: close_frontal_grid_matrix_def)
  have v: "m ! i ! j = 0 \<or> m ! i ! j = 1 \<or> m ! i ! j = 2" if "i < R" "j < C" for i j
  proof -
    have "0 \<le> m ! i ! j \<and> m ! i ! j \<le> 2"
      using valid m that unfolding all_cells_length by (simp add: is_matrix_def list_all_length)
    then show ?thesis by auto
  qed
  have "close_frontal_grid_matrix m ! i ! j = 0 \<or> close_frontal_grid_matrix m ! i ! j = 1 \<or>
        close_frontal_grid_matrix m ! i ! j = 2" if ij: "i < R" "j < C" for i j
    unfolding eq nth_assign_where [OF m1 mc ij] nth_assign_where [OF m mw ij]
    using v [OF ij] by (simp add: WARM_FRONT_INTEGER_ID_def COLD_FRONT_INTEGER_ID_def)
  moreover have "is_matrix R C (close_frontal_grid_matrix m)"
    unfolding eq using m1 mc by (rule is_matrix_assign_where)
  ultimately show ?thesis by blast
qed


lemma neighbours_sym: "neighbours p q \<Longrightarrow> neighbours q p"
  by (auto simp add: neighbours_def)

lemma linked_sym: "linked pixels R C p q \<Longrightarrow> linked pixels R C q p"
  by (simp add: linked_def neighbours_sym)

lemma chain_sym:
  assumes "(linked pixels R C)\<^sup>*\<^sup>* p q"
  shows "(linked pixels R C)\<^sup>*\<^sup>* q p"
  using assms
proof (induction rule: rtranclp_induct)
  case base
  show ?case by simp
next
  case (step y z)
  from step.hyps(2) have "linked pixels R C z y" by (rule linked_sym)
  then show ?case using step.IH by (rule converse_rtranclp_into_rtranclp)
qed

lemma grow_saturated:
  "\<forall>q\<in>set pool. q \<notin> set (grow pool region) \<longrightarrow>
     \<not> list_ex (neighbours q) (grow pool region)"
proof (induction pool region rule: grow.induct)
  case (1 pool region)
  let ?new = "filter (\<lambda>q. q \<notin> set region \<and> list_ex (neighbours q) region) pool"
  show ?case
  proof (cases "?new = []")
    case True
    have g: "grow pool region = region"
      using True by (subst grow.simps) (simp add: Let_def)
    show ?thesis unfolding g using True by (auto simp add: filter_empty_conv)
  next
    case False
    have g: "grow pool region = grow pool (region @ ?new)"
      using False by (subst grow.simps) (simp add: Let_def)
    from 1 [OF refl False] show ?thesis unfolding g .
  qed
qed

lemma grow_chain:
  assumes "\<forall>x\<in>set region. (linked pixels R C)\<^sup>*\<^sup>* s x"
    and "\<forall>x\<in>set pool \<union> set region. fst x < R \<and> snd x < C \<and>
           pixels ! fst x ! snd x = pixels ! fst s ! snd s"
  shows "\<forall>x\<in>set (grow pool region). (linked pixels R C)\<^sup>*\<^sup>* s x"
  using assms
proof (induction pool region rule: grow.induct)
  case (1 pool region)
  let ?new = "filter (\<lambda>q. q \<notin> set region \<and> list_ex (neighbours q) region) pool"
  show ?case
  proof (cases "?new = []")
    case True
    have g: "grow pool region = region"
      using True by (subst grow.simps) (simp add: Let_def)
    show ?thesis unfolding g using 1(2) .
  next
    case False
    have g: "grow pool region = grow pool (region @ ?new)"
      using False by (subst grow.simps) (simp add: Let_def)
    have a: "\<forall>x\<in>set (region @ ?new). (linked pixels R C)\<^sup>*\<^sup>* s x"
    proof
      fix x assume "x \<in> set (region @ ?new)"
      then consider "x \<in> set region" | "x \<in> set ?new" by auto
      then show "(linked pixels R C)\<^sup>*\<^sup>* s x"
      proof cases
        case 1
        then show ?thesis using "1.prems"(1) by blast
      next
        case 2
        then have xp: "x \<in> set pool" and "list_ex (neighbours x) region" by simp_all
        then obtain y where y: "y \<in> set region" "neighbours x y"
          by (auto simp add: list_ex_iff)
        have "linked pixels R C y x"
          unfolding linked_def using "1.prems"(2) xp y neighbours_sym [OF y(2)] by auto
        moreover have "(linked pixels R C)\<^sup>*\<^sup>* s y" using "1.prems"(1) y(1) by blast
        ultimately show ?thesis by (rule rtranclp.rtrancl_into_rtrancl [rotated])
      qed
    qed
    have b: "\<forall>x\<in>set pool \<union> set (region @ ?new). fst x < R \<and> snd x < C \<and>
           pixels ! fst x ! snd x = pixels ! fst s ! snd s"
      using "1.prems"(2) by auto
    from "1.IH" [OF refl False a b] show ?thesis unfolding g .
  qed
qed


lemma flood_fill_chain:
  assumes "is_matrix R C pixels" "is_matrix R C labels" "fst s < R" "snd s < C"
  shows "\<forall>x\<in>set (flood_fill pixels labels s). (linked pixels R C)\<^sup>*\<^sup>* s x"
  unfolding flood_fill_def
proof (rule grow_chain)
  show "\<forall>x\<in>set [s]. (linked pixels R C)\<^sup>*\<^sup>* s x" by simp
  show "\<forall>x\<in>set (where_cells (\<lambda>x. fst x = pixels ! fst s ! snd s \<and> snd x = 0)
            (map2 zip pixels labels)) \<union> set [s].
         fst x < R \<and> snd x < C \<and> pixels ! fst x ! snd x = pixels ! fst s ! snd s"
    unfolding set_where_cells_zip [OF assms(1,2)] using assms(3,4) by auto
qed

lemma flood_fill_saturated:
  assumes "is_matrix R C pixels" "is_matrix R C labels"
    and "fst q < R" "snd q < C" "pixels ! fst q ! snd q = pixels ! fst s ! snd s"
    and "labels ! fst q ! snd q = 0"
    and "x \<in> set (flood_fill pixels labels s)" "neighbours q x"
  shows "q \<in> set (flood_fill pixels labels s)"
proof (rule ccontr)
  let ?pool = "where_cells (\<lambda>x. fst x = pixels ! fst s ! snd s \<and> snd x = 0) (map2 zip pixels labels)"
  assume n: "q \<notin> set (flood_fill pixels labels s)"
  have "q \<in> set ?pool"
    unfolding set_where_cells_zip [OF assms(1,2)] using assms(3-6) by (simp add: split_beta)
  with grow_saturated [of ?pool "[s]"] n
  have "\<not> list_ex (neighbours q) (flood_fill pixels labels s)"
    unfolding flood_fill_def by blast
  then show False using assms(7,8) by (auto simp add: list_ex_iff)
qed

lemma label_step_components:
  assumes mp: "is_matrix R C pixels" and L: "labelled pixels labels n R C"
    and K: "components pixels labels R C"
    and s: "fst s < R" "snd s < C"
    and seed: "pixels ! fst s ! snd s \<noteq> 0" "labels ! fst s ! snd s = 0"
  shows "components pixels
     (fold (\<lambda>q l. set_cell l (fst q) (snd q) (n + 1)) (flood_fill pixels labels s) labels) R C"
proof -
  let ?F = "flood_fill pixels labels s"
  let ?l1 = "fold (\<lambda>q l. set_cell l (fst q) (snd q) (n + 1)) ?F labels"
  let ?chain = "(linked pixels R C)\<^sup>*\<^sup>*"
  from L have ml: "is_matrix R C labels"
    and L3: "\<forall>i<R. \<forall>j<C. 0 \<le> labels ! i ! j \<and> labels ! i ! j \<le> n \<and>
        (labels ! i ! j \<noteq> 0 \<longrightarrow> pixels ! i ! j \<noteq> 0)"
    unfolding labelled_def by blast+
  from K have K1: "\<forall>i<R. \<forall>j<C. \<forall>i'<R. \<forall>j'<C.
        labels ! i ! j \<noteq> 0 \<and> labels ! i ! j = labels ! i' ! j' \<longrightarrow> ?chain (i, j) (i', j')"
    and K2: "\<forall>p q. linked pixels R C p q \<and> labels ! fst p ! snd p \<noteq> 0 \<longrightarrow>
        labels ! fst q ! snd q = labels ! fst p ! snd p"
    unfolding components_def by blast+
  have Lb: "labels ! i ! j \<le> n" if "i < R" "j < C" for i j
    using L3 [rule_format, OF that] by simp
  have F: "q = s \<or> (fst q < R \<and> snd q < C \<and>
            pixels ! fst q ! snd q = pixels ! fst s ! snd s \<and> labels ! fst q ! snd q = 0)"
    if "q \<in> set ?F" for q
    using flood_fill_cells [OF mp ml s that] .
  have Fin: "\<forall>q\<in>set ?F. fst q < R \<and> snd q < C" using F s by auto
  have F0: "labels ! fst q ! snd q = 0" if "q \<in> set ?F" for q
    using F [OF that] seed(2) by auto
  have Fc: "?chain s q" if "q \<in> set ?F" for q
    using flood_fill_chain [OF mp ml s] that by blast
  have c1: "?l1 ! a ! b = (if (a, b) \<in> set ?F then n + 1 else labels ! a ! b)"
    if "a < R" "b < C" for a b
    using fold_set_cell [OF ml Fin, of "n + 1"] that by simp
  have new: "(a, b) \<in> set ?F \<longleftrightarrow> ?l1 ! a ! b = n + 1" if "a < R" "b < C" for a b
    using c1 [OF that] Lb [OF that] by auto
  have first: "?chain (i, j) (i', j')"
    if ij: "i < R" "j < C" "i' < R" "j' < C"
      and nz: "?l1 ! i ! j \<noteq> 0" and eq: "?l1 ! i ! j = ?l1 ! i' ! j'" for i j i' j'
  proof (cases "(i, j) \<in> set ?F")
    case True
    then have "?l1 ! i ! j = n + 1" using new [OF ij(1,2)] by simp
    then have "(i', j') \<in> set ?F" using eq new [OF ij(3,4)] by simp
    then have "?chain s (i', j')" by (rule Fc)
    moreover have "?chain (i, j) s" using Fc [OF True] by (rule chain_sym)
    ultimately show ?thesis by (rule rtranclp_trans [rotated])
  next
    case False
    then have a: "?l1 ! i ! j = labels ! i ! j" using c1 [OF ij(1,2)] by simp
    have "?l1 ! i ! j \<noteq> n + 1" using False new [OF ij(1,2)] by simp
    then have "(i', j') \<notin> set ?F" using eq new [OF ij(3,4)] by simp
    then have b: "?l1 ! i' ! j' = labels ! i' ! j'" using c1 [OF ij(3,4)] by simp
    have "labels ! i ! j \<noteq> 0" using nz a by simp
    moreover have "labels ! i ! j = labels ! i' ! j'" using eq a b by simp
    ultimately show ?thesis using K1 [rule_format, OF ij] by blast
  qed
  have second: "?l1 ! fst q ! snd q = ?l1 ! fst p ! snd p"
    if lk: "linked pixels R C p q" and nz: "?l1 ! fst p ! snd p \<noteq> 0" for p q
  proof -
    from lk have p: "fst p < R" "snd p < C" and q: "fst q < R" "snd q < C"
      and nb: "neighbours p q" and px: "pixels ! fst p ! snd p = pixels ! fst q ! snd q"
      unfolding linked_def by blast+
    show ?thesis
    proof (cases "p \<in> set ?F")
      case True
      have lp0: "labels ! fst p ! snd p = 0" using True by (rule F0)
      have vp: "pixels ! fst p ! snd p = pixels ! fst s ! snd s" using F [OF True] by auto
      have lq0: "labels ! fst q ! snd q = 0"
      proof (rule ccontr)
        assume "labels ! fst q ! snd q \<noteq> 0"
        with K2 [rule_format, of q p] linked_sym [OF lk]
        have "labels ! fst p ! snd p = labels ! fst q ! snd q" by blast
        with lp0 \<open>labels ! fst q ! snd q \<noteq> 0\<close> show False by simp
      qed
      have "q \<in> set ?F"
        using mp ml q _ lq0 True neighbours_sym [OF nb]
        by (rule flood_fill_saturated) (simp add: px [symmetric] vp)
      then have "?l1 ! fst q ! snd q = n + 1" using new [OF q] by simp
      moreover have "?l1 ! fst p ! snd p = n + 1" using True new [OF p] by simp
      ultimately show ?thesis by simp
    next
      case False
      then have a: "?l1 ! fst p ! snd p = labels ! fst p ! snd p" using c1 [OF p] by simp
      then have lp: "labels ! fst p ! snd p \<noteq> 0" using nz by simp
      with K2 [rule_format, of p q] lk
      have e: "labels ! fst q ! snd q = labels ! fst p ! snd p" by blast
      then have "q \<notin> set ?F" using F0 [of q] lp by auto
      then have "?l1 ! fst q ! snd q = labels ! fst q ! snd q" using c1 [OF q] by simp
      then show ?thesis using a e by simp
    qed
  qed
  show ?thesis
    unfolding components_def using first second by blast
qed

lemma label_cells_components:
  assumes "is_matrix R C pixels" "labelled pixels labels n R C" "components pixels labels R C"
    and "\<forall>p\<in>set cells. fst p < R \<and> snd p < C"
  shows "components pixels (fst (label_cells pixels cells (labels, n))) R C"
  using assms(2-4)
proof (induction cells arbitrary: labels n)
  case Nil
  then show ?case by simp
next
  case (Cons s cells)
  have sg: "fst s < R" "snd s < C" using Cons.prems(3) by simp_all
  have rest: "\<forall>p\<in>set cells. fst p < R \<and> snd p < C" using Cons.prems(3) by simp
  show ?case
  proof (cases "pixels ! fst s ! snd s \<noteq> 0 \<and> labels ! fst s ! snd s = 0")
    case False
    then have "label_cells pixels (s # cells) (labels, n) = label_cells pixels cells (labels, n)"
      by auto
    then show ?thesis using Cons.IH [OF Cons.prems(1,2) rest] by simp
  next
    case True
    let ?l1 = "fold (\<lambda>q l. set_cell l (fst q) (snd q) (n + 1)) (flood_fill pixels labels s) labels"
    have one: "label_cells pixels [s] (labels, n) = (?l1, n + 1)" using True by simp
    have "\<forall>p\<in>set [s]. fst p < R \<and> snd p < C" using sg by simp
    from label_cells_labelled [OF assms(1) Cons.prems(1) this]
    have L1: "labelled pixels ?l1 (n + 1) R C" unfolding one by auto
    have K1: "components pixels ?l1 R C"
      using assms(1) Cons.prems(1,2) sg True
      by (intro label_step_components) simp_all
    have "label_cells pixels (s # cells) (labels, n) = label_cells pixels cells (?l1, n + 1)"
      using True by simp
    then show ?thesis using Cons.IH [OF L1 K1 rest] by simp
  qed
qed


lemma label_image_components:
  assumes "is_matrix R C pixels"
  shows "components pixels (label_image pixels) R C"
proof -
  let ?l0 = "map (map (\<lambda>x. 0::int)) pixels"
  let ?cells = "where_cells (\<lambda>x. True) pixels"
  have m0: "is_matrix R C ?l0"
    using assms by (simp add: is_matrix_def list_all_iff)
  have z: "?l0 ! i ! j = 0" if "i < R" "j < C" for i j
    using assms that by (simp add: is_matrix_def list_all_length)
  have L0: "labelled pixels ?l0 0 R C"
    unfolding labelled_def using m0 z by simp
  have K0: "components pixels ?l0 R C"
    unfolding components_def linked_def using z by simp
  have "set ?cells = {(i, j). i < R \<and> j < C}"
    using set_where_cells_matrix [OF assms, of "\<lambda>x. True"] by simp
  then have inr: "\<forall>p\<in>set ?cells. fst p < R \<and> snd p < C" by auto
  from label_cells_components [OF assms L0 K0 inr]
  show ?thesis by (simp add: label_image_def)
qed

lemma label_image_same_label:
  assumes m: "is_matrix R C pixels" and ij: "i < R" "j < C" "i' < R" "j' < C"
    and nz: "pixels ! i ! j \<noteq> 0"
  shows "label_image pixels ! i ! j = label_image pixels ! i' ! j' \<longleftrightarrow>
         (linked pixels R C)\<^sup>*\<^sup>* (i, j) (i', j')"
proof -
  let ?rm = "label_image pixels"
  from label_image_components [OF m]
  have K1: "\<forall>i<R. \<forall>j<C. \<forall>i'<R. \<forall>j'<C.
        ?rm ! i ! j \<noteq> 0 \<and> ?rm ! i ! j = ?rm ! i' ! j' \<longrightarrow>
        (linked pixels R C)\<^sup>*\<^sup>* (i, j) (i', j')"
    and K2: "\<forall>p q. linked pixels R C p q \<and> ?rm ! fst p ! snd p \<noteq> 0 \<longrightarrow>
        ?rm ! fst q ! snd q = ?rm ! fst p ! snd p"
    unfolding components_def by blast+
  from label_image_labelled [OF m]
  have fg: "\<forall>i<R. \<forall>j<C. pixels ! i ! j \<noteq> 0 \<longrightarrow> ?rm ! i ! j \<noteq> 0" by blast
  have l: "?rm ! i ! j \<noteq> 0" using fg ij(1,2) nz by blast
  show ?thesis
  proof
    assume "?rm ! i ! j = ?rm ! i' ! j'"
    with l show "(linked pixels R C)\<^sup>*\<^sup>* (i, j) (i', j')"
      using K1 [rule_format, OF ij] by blast
  next
    assume "(linked pixels R C)\<^sup>*\<^sup>* (i, j) (i', j')"
    then have "?rm ! fst (i', j') ! snd (i', j') = ?rm ! i ! j"
    proof (induction rule: rtranclp_induct)
      case base
      show ?case by simp
    next
      case (step y z)
      have "?rm ! fst y ! snd y \<noteq> 0" using step.IH l by simp
      with K2 [rule_format, of y z] step.hyps(2)
      have "?rm ! fst z ! snd z = ?rm ! fst y ! snd y" by blast
      then show ?case using step.IH by simp
    qed
    then show "?rm ! i ! j = ?rm ! i' ! j'" by simp
  qed
qed

lemma region_of_labelled:
  assumes mcl: "is_matrix R C closed_matrix"
    and vals: "\<forall>i<R. \<forall>j<C. closed_matrix ! i ! j = 0 \<or> closed_matrix ! i ! j = 1 \<or> closed_matrix ! i ! j = 2"
    and L: "labelled closed_matrix rm n R C" and k: "int k + 1 \<le> n"
  shows "\<exists>r c. where_cells (\<lambda>x. x = int k + 1) rm \<noteq> [] \<and>
     hd (where_cells (\<lambda>x. x = int k + 1) rm) = (r, c) \<and> r < R \<and> c < C \<and>
     rm ! r ! c = int k + 1 \<and>
     region_of closed_matrix rm k =
       Inr (fst (numpy_where (\<lambda>x. x = int k + 1) rm),
            snd (numpy_where (\<lambda>x. x = int k + 1) rm),
            region_type closed_matrix rm k) \<and>
     (closed_matrix ! r ! c = WARM_FRONT_INTEGER_ID \<and>
        region_type closed_matrix rm k = WARM_FRONT_STRING_ID \<or>
      closed_matrix ! r ! c = COLD_FRONT_INTEGER_ID \<and>
        region_type closed_matrix rm k = COLD_FRONT_STRING_ID) \<and>
     (\<forall>i<R. \<forall>j<C. rm ! i ! j = int k + 1 \<longrightarrow> closed_matrix ! i ! j = closed_matrix ! r ! c)"
proof -
  let ?cells = "where_cells (\<lambda>x. x = int k + 1) rm"
  from L have ml: "is_matrix R C rm"
    and L3: "\<forall>i<R. \<forall>j<C. 0 \<le> rm ! i ! j \<and> rm ! i ! j \<le> n \<and>
        (rm ! i ! j \<noteq> 0 \<longrightarrow> closed_matrix ! i ! j \<noteq> 0)"
    and L4: "\<forall>k. 1 \<le> k \<and> k \<le> n \<longrightarrow> (\<exists>i<R. \<exists>j<C. rm ! i ! j = k)"
    and L5: "\<forall>i<R. \<forall>j<C. \<forall>i'<R. \<forall>j'<C.
        rm ! i ! j \<noteq> 0 \<and> rm ! i ! j = rm ! i' ! j' \<longrightarrow> closed_matrix ! i ! j = closed_matrix ! i' ! j'"
    unfolding labelled_def by blast+
  have cells: "set ?cells = {(i, j). i < R \<and> j < C \<and> rm ! i ! j = int k + 1}"
    using ml by (rule set_where_cells_matrix)
  obtain i j where "i < R" "j < C" "rm ! i ! j = int k + 1"
    using L4 [rule_format, of "int k + 1"] k by auto
  then have "(i, j) \<in> set ?cells" unfolding cells by simp
  then have ne: "?cells \<noteq> []" by auto
  obtain r c where rc: "hd ?cells = (r, c)" by (cases "hd ?cells")
  have "hd ?cells \<in> set ?cells" using ne by simp
  then have rc': "r < R" "c < C" "rm ! r ! c = int k + 1"
    unfolding cells rc by simp_all
  have nz: "closed_matrix ! r ! c \<noteq> 0" using L3 [rule_format, OF rc'(1,2)] rc'(3) by simp
  then have v: "closed_matrix ! r ! c = 1 \<or> closed_matrix ! r ! c = 2"
    using vals [rule_format, OF rc'(1,2)] by simp
  have t_def: "region_type closed_matrix rm k =
      (if closed_matrix ! r ! c = WARM_FRONT_INTEGER_ID then WARM_FRONT_STRING_ID
       else if closed_matrix ! r ! c = COLD_FRONT_INTEGER_ID then COLD_FRONT_STRING_ID else '''')"
    by (simp add: region_type_def rc)
  have first: "python_first (map (\<lambda>p. int (fst p)) ?cells) = Inr (int r)"
    "python_first (map (\<lambda>p. int (snd p)) ?cells) = Inr (int c)"
    using ne rc by (cases ?cells; simp add: python_first_def)+
  have run: "region_of closed_matrix rm k =
       Inr (fst (numpy_where (\<lambda>x. x = int k + 1) rm),
            snd (numpy_where (\<lambda>x. x = int k + 1) rm), region_type closed_matrix rm k)"
    unfolding region_of_def numpy_where_def using first by (simp add: t_def)
  have ty: "closed_matrix ! r ! c = WARM_FRONT_INTEGER_ID \<and>
        region_type closed_matrix rm k = WARM_FRONT_STRING_ID \<or>
      closed_matrix ! r ! c = COLD_FRONT_INTEGER_ID \<and>
        region_type closed_matrix rm k = COLD_FRONT_STRING_ID"
    using v by (auto simp add: t_def WARM_FRONT_INTEGER_ID_def COLD_FRONT_INTEGER_ID_def)
  have same: "closed_matrix ! i ! j = closed_matrix ! r ! c" if "i < R" "j < C" "rm ! i ! j = int k + 1" for i j
    using L5 [rule_format, OF that(1,2) rc'(1,2)] that(3) rc'(3) by simp
  show ?thesis using ne rc rc' run ty same by blast
qed

text \<open>
  Claim C7, amended (regions and their front types). Let the grid be a rectangular,
  non-empty matrix of 0, 1, 2, let \<open>closed_matrix\<close> be the grid after closing and
  \<open>region_matrix\<close> the labels of \<open>label_image\<close> on it. Then \<open>frontal_grid_to_regions\<close>
  returns three lists of one length. The labelled cells are the nonzero cells of the
  closed grid, and their labels run up to the number of regions. A nonzero cell has the
  label of another cell exactly when a chain of 8-neighbours, each holding the value of
  the one before in the closed grid, leads from the one to the other: the regions are the
  8-connected components of the warm-front cells and those of the cold-front cells, and a
  warm-front cell never shares a region with a cold-front cell. The region at position
  \<open>k\<close> holds the cells of label \<open>k + 1\<close>, in row-major order, and is not empty; its front
  type is the one of the value that the closed grid holds at the first of these cells,
  which is warm front or cold front; and all cells of the region hold that value in the
  closed grid.
\<close>

theorem frontal_grid_to_regions_types:
  assumes m: "is_matrix R C m" and R: "0 < R" and C: "0 < C"
    and valid: "all_cells (\<lambda>x. 0 \<le> x \<and> x \<le> 2) m"
    and cl: "closed_matrix = close_frontal_grid_matrix m"
    and rm: "region_matrix = label_image closed_matrix"
  shows "\<exists>d. frontal_grid_to_regions m = Inr d \<and>
     length (row_indices_by_region d) = length (front_type_by_region d) \<and>
     length (column_indices_by_region d) = length (front_type_by_region d) \<and>
     (\<forall>i<R. \<forall>j<C. 0 \<le> region_matrix ! i ! j \<and>
        region_matrix ! i ! j \<le> int (length (front_type_by_region d)) \<and>
        (region_matrix ! i ! j \<noteq> 0 \<longleftrightarrow> closed_matrix ! i ! j \<noteq> 0)) \<and>
     (\<forall>i<R. \<forall>j<C. \<forall>i'<R. \<forall>j'<C. closed_matrix ! i ! j \<noteq> 0 \<longrightarrow>
        (region_matrix ! i ! j = region_matrix ! i' ! j' \<longleftrightarrow>
         (linked closed_matrix R C)\<^sup>*\<^sup>* (i, j) (i', j'))) \<and>
     (\<forall>k<length (front_type_by_region d).
        (row_indices_by_region d ! k, column_indices_by_region d ! k) =
          numpy_where (\<lambda>x. x = int k + 1) region_matrix \<and>
        where_cells (\<lambda>x. x = int k + 1) region_matrix \<noteq> [] \<and>
        (\<forall>r c. hd (where_cells (\<lambda>x. x = int k + 1) region_matrix) = (r, c) \<longrightarrow>
           (closed_matrix ! r ! c = WARM_FRONT_INTEGER_ID \<and>
              front_type_by_region d ! k = WARM_FRONT_STRING_ID \<or>
            closed_matrix ! r ! c = COLD_FRONT_INTEGER_ID \<and>
              front_type_by_region d ! k = COLD_FRONT_STRING_ID) \<and>
           (\<forall>i<R. \<forall>j<C. region_matrix ! i ! j = int k + 1 \<longrightarrow>
              closed_matrix ! i ! j = closed_matrix ! r ! c)))"
proof -
  from close_frontal_grid_values [OF m R valid]
  have mcl: "is_matrix R C closed_matrix"
    and vals: "\<forall>i<R. \<forall>j<C. closed_matrix ! i ! j = 0 \<or> closed_matrix ! i ! j = 1 \<or> closed_matrix ! i ! j = 2"
    unfolding cl by blast+
  from label_image_labelled [OF mcl] obtain n where
    L: "labelled closed_matrix region_matrix n R C"
    and fg: "\<forall>i<R. \<forall>j<C. closed_matrix ! i ! j \<noteq> 0 \<longrightarrow> region_matrix ! i ! j \<noteq> 0"
    unfolding rm by blast
  from L have n0: "0 \<le> n"
    and L3: "\<forall>i<R. \<forall>j<C. 0 \<le> region_matrix ! i ! j \<and> region_matrix ! i ! j \<le> n \<and>
        (region_matrix ! i ! j \<noteq> 0 \<longrightarrow> closed_matrix ! i ! j \<noteq> 0)"
    unfolding labelled_def by blast+
  have mx: "numpy_max (concat region_matrix) = Inr n"
    using L R C by (rule numpy_max_labels)
  define ty where "ty = region_type closed_matrix region_matrix"
  define P where "P = (\<lambda>k r c t.
     where_cells (\<lambda>x. x = int k + 1) region_matrix \<noteq> [] \<and>
     hd (where_cells (\<lambda>x. x = int k + 1) region_matrix) = (r, c) \<and> r < R \<and> c < C \<and>
     region_matrix ! r ! c = int k + 1 \<and>
     region_of closed_matrix region_matrix k =
       Inr (fst (numpy_where (\<lambda>x. x = int k + 1) region_matrix),
            snd (numpy_where (\<lambda>x. x = int k + 1) region_matrix), t) \<and>
     (closed_matrix ! r ! c = WARM_FRONT_INTEGER_ID \<and> t = WARM_FRONT_STRING_ID \<or>
      closed_matrix ! r ! c = COLD_FRONT_INTEGER_ID \<and> t = COLD_FRONT_STRING_ID) \<and>
     (\<forall>i<R. \<forall>j<C. region_matrix ! i ! j = int k + 1 \<longrightarrow> closed_matrix ! i ! j = closed_matrix ! r ! c))"
  have tyP: "\<exists>r c. P k r c (ty k)" if "k < nat n" for k
  proof -
    have "int k + 1 \<le> n" using that by simp
    from region_of_labelled [OF mcl vals L this] show ?thesis unfolding P_def ty_def .
  qed
  define g where "g = (\<lambda>k. (fst (numpy_where (\<lambda>x. x = int k + 1) region_matrix),
            snd (numpy_where (\<lambda>x. x = int k + 1) region_matrix), ty k))"
  have reg: "\<forall>k\<in>set [0..<nat n]. region_of closed_matrix region_matrix k = Inr (g k)"
  proof
    fix k assume "k \<in> set [0..<nat n]"
    then have "k < nat n" by simp
    from tyP [OF this] show "region_of closed_matrix region_matrix k = Inr (g k)"
      unfolding P_def g_def by blast
  qed
  define d where "d = \<lparr>row_indices_by_region = map fst (map g [0..<nat n]),
                       column_indices_by_region = map (\<lambda>r. fst (snd r)) (map g [0..<nat n]),
                       front_type_by_region = map (\<lambda>r. snd (snd r)) (map g [0..<nat n])\<rparr>"
  have run: "frontal_grid_to_regions m = Inr d"
    unfolding frontal_grid_to_regions_def Let_def cl [symmetric] rm [symmetric] mx
    using collect_results_map [OF reg] by (simp add: d_def)
  have len: "length (front_type_by_region d) = nat n"
    "length (row_indices_by_region d) = nat n" "length (column_indices_by_region d) = nat n"
    by (simp_all add: d_def)
  have cellsok: "0 \<le> region_matrix ! i ! j \<and>
        region_matrix ! i ! j \<le> int (length (front_type_by_region d)) \<and>
        (region_matrix ! i ! j \<noteq> 0 \<longleftrightarrow> closed_matrix ! i ! j \<noteq> 0)" if ij: "i < R" "j < C" for i j
    using L3 [rule_format, OF ij] fg [rule_format, OF ij] n0 by (auto simp add: len)
  have regok: "(row_indices_by_region d ! k, column_indices_by_region d ! k) =
          numpy_where (\<lambda>x. x = int k + 1) region_matrix \<and>
        where_cells (\<lambda>x. x = int k + 1) region_matrix \<noteq> [] \<and>
        (\<forall>r c. hd (where_cells (\<lambda>x. x = int k + 1) region_matrix) = (r, c) \<longrightarrow>
           (closed_matrix ! r ! c = WARM_FRONT_INTEGER_ID \<and>
              front_type_by_region d ! k = WARM_FRONT_STRING_ID \<or>
            closed_matrix ! r ! c = COLD_FRONT_INTEGER_ID \<and>
              front_type_by_region d ! k = COLD_FRONT_STRING_ID) \<and>
           (\<forall>i<R. \<forall>j<C. region_matrix ! i ! j = int k + 1 \<longrightarrow>
              closed_matrix ! i ! j = closed_matrix ! r ! c))"
    if "k < length (front_type_by_region d)" for k
  proof -
    have kn: "k < nat n" using that by (simp add: len)
    from tyP [OF kn] obtain r c where p: "P k r c (ty k)" by blast
    have a: "row_indices_by_region d ! k = fst (numpy_where (\<lambda>x. x = int k + 1) region_matrix)"
      "column_indices_by_region d ! k = snd (numpy_where (\<lambda>x. x = int k + 1) region_matrix)"
      "front_type_by_region d ! k = ty k"
      using kn by (simp_all add: d_def g_def)
    from p have ne: "where_cells (\<lambda>x. x = int k + 1) region_matrix \<noteq> []"
      and hd: "hd (where_cells (\<lambda>x. x = int k + 1) region_matrix) = (r, c)"
      and t: "closed_matrix ! r ! c = WARM_FRONT_INTEGER_ID \<and> ty k = WARM_FRONT_STRING_ID \<or>
          closed_matrix ! r ! c = COLD_FRONT_INTEGER_ID \<and> ty k = COLD_FRONT_STRING_ID"
      and same: "\<forall>i<R. \<forall>j<C. region_matrix ! i ! j = int k + 1 \<longrightarrow>
          closed_matrix ! i ! j = closed_matrix ! r ! c"
      unfolding P_def by blast+
    have one: "(row_indices_by_region d ! k, column_indices_by_region d ! k) =
          numpy_where (\<lambda>x. x = int k + 1) region_matrix"
      unfolding a by simp
    have three: "(closed_matrix ! r' ! c' = WARM_FRONT_INTEGER_ID \<and>
              front_type_by_region d ! k = WARM_FRONT_STRING_ID \<or>
            closed_matrix ! r' ! c' = COLD_FRONT_INTEGER_ID \<and>
              front_type_by_region d ! k = COLD_FRONT_STRING_ID) \<and>
           (\<forall>i<R. \<forall>j<C. region_matrix ! i ! j = int k + 1 \<longrightarrow>
              closed_matrix ! i ! j = closed_matrix ! r' ! c')"
      if "hd (where_cells (\<lambda>x. x = int k + 1) region_matrix) = (r', c')" for r' c'
    proof -
      have "r' = r" "c' = c" using that hd by simp_all
      then show ?thesis using t same unfolding a(3) by blast
    qed
    from one ne three show ?thesis by blast
  qed
  have comp: "region_matrix ! i ! j = region_matrix ! i' ! j' \<longleftrightarrow>
         (linked closed_matrix R C)\<^sup>*\<^sup>* (i, j) (i', j')"
    if "i < R" "j < C" "i' < R" "j' < C" "closed_matrix ! i ! j \<noteq> 0" for i j i' j'
    unfolding rm using mcl that by (rule label_image_same_label)
  have lens: "length (row_indices_by_region d) = length (front_type_by_region d)"
    "length (column_indices_by_region d) = length (front_type_by_region d)"
    by (simp_all add: len)
  show ?thesis
    using run lens cellsok comp regok by (intro exI [of _ d] conjI allI impI) blast+
qed

theorem frontal_grid_to_regions_types_witness:
  "is_matrix 4 5 [[2, 0, 0, 0, 0], [0, 0, 1, 2, 0], [0, 0, 2, 0, 0], [0, 0, 0, 0, 0 :: int]] \<and>
   all_cells (\<lambda>x. 0 \<le> x \<and> x \<le> 2)
     [[2, 0, 0, 0, 0], [0, 0, 1, 2, 0], [0, 0, 2, 0, 0], [0, 0, 0, 0, 0 :: int]] \<and>
   (\<exists>d. frontal_grid_to_regions
          [[2, 0, 0, 0, 0], [0, 0, 1, 2, 0], [0, 0, 2, 0, 0], [0, 0, 0, 0, 0]] = Inr d \<and>
        length (row_indices_by_region d) = length (front_type_by_region d) \<and>
        length (column_indices_by_region d) = length (front_type_by_region d)) \<and>
   (linked [[2, 0, 0, 0, 0], [0, 0, 2, 2, 0], [0, 0, 2, 0, 0], [0, 0, 0, 0, 0]] 4 5)\<^sup>*\<^sup>*
     (1, 2) (2, 2) \<and>
   \<not> (linked [[2, 0, 0, 0, 0], [0, 0, 2, 2, 0], [0, 0, 2, 0, 0], [0, 0, 0, 0, 0]] 4 5)\<^sup>*\<^sup>*
     (1, 2) (0, 0)"
proof -
  let ?m = "[[2, 0, 0, 0, 0], [0, 0, 1, 2, 0], [0, 0, 2, 0, 0], [0, 0, 0, 0, 0 :: int]]"
  let ?c = "[[2, 0, 0, 0, 0], [0, 0, 2, 2, 0], [0, 0, 2, 0, 0], [0, 0, 0, 0, 0 :: int]]"
  let ?l = "[[1, 0, 0, 0, 0], [0, 0, 2, 2, 0], [0, 0, 2, 0, 0], [0, 0, 0, 0, 0 :: int]]"
  have m: "is_matrix 4 5 ?m" by (simp add: is_matrix_def)
  have v: "all_cells (\<lambda>x. 0 \<le> x \<and> x \<le> 2) ?m" by (simp add: all_cells_def)
  have r: "0 < (4::nat)" and c: "0 < (5::nat)" by simp_all
  have cl: "?c = close_frontal_grid_matrix ?m" by code_simp
  have lb: "?l = label_image ?c" by code_simp
  note t = frontal_grid_to_regions_types [OF m r c v cl lb]
  from t have a: "\<exists>d. frontal_grid_to_regions ?m = Inr d \<and>
        length (row_indices_by_region d) = length (front_type_by_region d) \<and>
        length (column_indices_by_region d) = length (front_type_by_region d)"
    by blast
  from t have k: "\<forall>i<4. \<forall>j<5. \<forall>i'<4. \<forall>j'<5. ?c ! i ! j \<noteq> 0 \<longrightarrow>
        (?l ! i ! j = ?l ! i' ! j' \<longleftrightarrow> (linked ?c 4 5)\<^sup>*\<^sup>* (i, j) (i', j'))"
    by blast
  have b: "(linked ?c 4 5)\<^sup>*\<^sup>* (1, 2) (2, 2)"
    using k [rule_format, of 1 2 2 2] by simp
  have n: "\<not> (linked ?c 4 5)\<^sup>*\<^sup>* (1, 2) (0, 0)"
    using k [rule_format, of 1 2 0 0] by simp
  from m v a b n show ?thesis by blast
qed

text \<open>
  The claim as first stated fails on two counts in the grid below. It reads the type
  from the value of the first cell before the closing: the cell \<open>(1, 2)\<close> is a warm front,
  the closing of the cold-front cells covers it, it becomes the first cell of the second
  region, and the region is emitted as a cold front. And it has the nonzero cells share
  one connectivity: the cold-front cell \<open>(2, 2)\<close> and the warm-front cell \<open>(3, 1)\<close> are
  neighbours, both nonzero after the closing, and they lie in two regions.
\<close>

theorem region_type_after_closing_counterexample:
  "[[2, 0, 0, 0, 0], [0, 0, 1, 2, 0], [0, 0, 2, 0, 0], [0, 1, 0, 0, 0]] ! 1 ! 2 =
     WARM_FRONT_INTEGER_ID \<and>
   neighbours (2, 2) (3, 1) \<and>
   close_frontal_grid_matrix
     [[2, 0, 0, 0, 0], [0, 0, 1, 2, 0], [0, 0, 2, 0, 0], [0, 1, 0, 0, 0]] =
     [[2, 0, 0, 0, 0], [0, 0, 2, 2, 0], [0, 0, 2, 0, 0], [0, 1, 0, 0, 0]] \<and>
   frontal_grid_to_regions
     [[2, 0, 0, 0, 0], [0, 0, 1, 2, 0], [0, 0, 2, 0, 0], [0, 1, 0, 0, 0]] =
     Inr \<lparr>row_indices_by_region = [[0], [1, 1, 2], [3]],
          column_indices_by_region = [[0], [2, 3, 2], [1]],
          front_type_by_region = [''cold'', ''cold'', ''warm'']\<rparr>"
  by code_simp

end
